theory Spec2Isabelle
  imports Main "HOL-Library.Word" "HOL-Library.Sublist"
begin

unbundle bit_operations_syntax

section \<open>JavaScript strings and buffers\<close>

text \<open>
  A JavaScript string is a sequence of UTF-16 code units; \<open>length\<close>, \<open>slice\<close>,
  \<open>startsWith\<close>, \<open>replaceAll\<close> and a regular expression without the \<open>u\<close> flag all
  work on code units. A Buffer is a sequence of bytes.
\<close>

type_synonym code_unit = "16 word"
type_synonym jsstring = "code_unit list"
type_synonym byte = "8 word"

abbreviation cu :: "char \<Rightarrow> code_unit" where
  "cu c \<equiv> of_char c"

text \<open>An ASCII literal as a JavaScript string.\<close>

definition str :: "string \<Rightarrow> jsstring" where
  "str s = map cu s"

text \<open>
  \<open>String.prototype.replaceAll(pat, rep)\<close> with a string pattern and a replacement
  without \<open>$\<close>: the occurrences of \<open>pat\<close> are found from left to right, each search
  resuming behind the previous occurrence; the empty pattern occurs before every code
  unit and at the end.
\<close>

function replaceAll :: "'a list \<Rightarrow> 'a list \<Rightarrow> 'a list \<Rightarrow> 'a list" where
  "replaceAll pat rep [] = (if pat = [] then rep else [])"
| "replaceAll pat rep (c # cs) =
     (if pat = [] then rep @ c # replaceAll pat rep cs
      else if prefix pat (c # cs) then rep @ replaceAll pat rep (drop (length pat) (c # cs))
      else c # replaceAll pat rep cs)"
  by pat_completeness auto
termination
  by (relation "measure (\<lambda>(pat, rep, s). length s)") auto

section \<open>imgFilename\<close>

text \<open>
  The character class \<open>[a-z-_0-9]\<close> under the flags \<open>gi\<close>: without the \<open>u\<close> flag a code
  unit above 127 never folds to an ASCII one, so the class holds exactly the ASCII
  letters of both cases, the digits, the hyphen and the underscore.
\<close>

definition filename_char :: "code_unit \<Rightarrow> bool" where
  "filename_char c \<longleftrightarrow>
     (cu CHR ''a'' \<le> c \<and> c \<le> cu CHR ''z'') \<or>
     (cu CHR ''A'' \<le> c \<and> c \<le> cu CHR ''Z'') \<or>
     c = cu CHR ''-'' \<or> c = cu CHR ''_'' \<or>
     (cu CHR ''0'' \<le> c \<and> c \<le> cu CHR ''9'')"

text \<open>
  The marker appended to a truncated file name, as the source file spells it: the three
  code units U+00E2, U+20AC, U+00A6.
\<close>

definition truncation_marker :: jsstring where
  "truncation_marker = [0xE2, 0x20AC, 0xA6]"

definition maxLength :: nat where
  "maxLength = 240"

text \<open>The chain of replacements applied to the prompt, before the trailing separator is cut.\<close>

definition replace_chain :: "jsstring \<Rightarrow> jsstring" where
  "replace_chain prompt =
     (let p1 = replaceAll (str ''. '') (str ''_'') prompt;
          p2 = replaceAll (str '', '') (str ''_'') p1;
          p3 = replaceAll (str ''.'') (str ''_'') p2;
          p4 = replaceAll (str '','') (str ''_'') p3;
          p5 = replaceAll (str '' '') (str ''-'') p4
      in filter filename_char p5)"

definition imgFilename :: "jsstring \<Rightarrow> jsstring \<Rightarrow> jsstring" where
  "imgFilename ident prompt =
     (let p = replace_chain prompt;
          p' = (if p \<noteq> [] \<and> (last p = cu CHR ''_'' \<or> last p = cu CHR ''-'')
                then butlast p else p);
          filename = ident @ str ''-'' @ p'
      in if length filename > maxLength then take maxLength filename @ truncation_marker
         else filename)"

text \<open>
  The sanitization in the words of the specification, as one pass over the prompt: a
  full stop or comma, with the space behind it if there is one, becomes the separator
  \<open>_\<close>; a space becomes a hyphen; a code unit of \<open>[A-Za-z0-9-_]\<close> is kept and any other
  one is dropped.
\<close>

definition sanitize_unit :: "code_unit \<Rightarrow> jsstring" where
  "sanitize_unit c =
     (if c = cu CHR ''.'' \<or> c = cu CHR '','' then str ''_''
      else if c = cu CHR '' '' then str ''-''
      else if filename_char c then [c] else [])"

fun sanitize_spec :: "jsstring \<Rightarrow> jsstring" where
  "sanitize_spec [] = []"
| "sanitize_spec [c] = sanitize_unit c"
| "sanitize_spec (c # d # cs) =
     (if (c = cu CHR ''.'' \<or> c = cu CHR '','') \<and> d = cu CHR '' ''
      then str ''_'' @ sanitize_spec cs
      else sanitize_unit c @ sanitize_spec (d # cs))"

definition strip_trailing_separator :: "jsstring \<Rightarrow> jsstring" where
  "strip_trailing_separator p =
     (if p \<noteq> [] \<and> (last p = cu CHR ''_'' \<or> last p = cu CHR ''-'') then butlast p else p)"

text \<open>
  The stages of the chain taken apart: the two replacements of a pattern of two code
  units, and the rest, which works on one code unit at a time. \<open>pairs\<close> is what the first
  two stages do together.
\<close>

definition stage1 :: "jsstring \<Rightarrow> jsstring" where
  "stage1 = replaceAll (str ''. '') (str ''_'')"

definition stage2 :: "jsstring \<Rightarrow> jsstring" where
  "stage2 = replaceAll (str '', '') (str ''_'')"

definition stage3 :: "jsstring \<Rightarrow> jsstring" where
  "stage3 s = filter filename_char (replaceAll (str '' '') (str ''-'')
     (replaceAll (str '','') (str ''_'') (replaceAll (str ''.'') (str ''_'') s)))"

fun pairs :: "jsstring \<Rightarrow> jsstring" where
  "pairs [] = []"
| "pairs [c] = [c]"
| "pairs (c # d # cs) =
     (if (c = cu CHR ''.'' \<or> c = cu CHR '','') \<and> d = cu CHR '' ''
      then cu CHR ''_'' # pairs cs
      else c # pairs (d # cs))"

section \<open>getImgExt\<close>

text \<open>
  \<open>buffer.toString('hex')\<close>: two lower-case hexadecimal digits for every byte.
\<close>

definition hex_digit :: "nat \<Rightarrow> code_unit" where
  "hex_digit n = (if n < 10 then cu CHR ''0'' + of_nat n else cu CHR ''a'' + of_nat (n - 10))"

definition byte_hex :: "byte \<Rightarrow> jsstring" where
  "byte_hex b = [hex_digit (unat b div 16), hex_digit (unat b mod 16)]"

definition toString_hex :: "byte list \<Rightarrow> jsstring" where
  "toString_hex buffer = concat (map byte_hex buffer)"

text \<open>
  The table \<open>magicMarkers\<close>, in the order the source writes it. No marker is a prefix of
  another one, so the order in which \<open>Object.entries\<close> lists the keys does not change
  the result (see \<open>getImgExt_bytes\<close> below).
\<close>

definition magicMarkers :: "(jsstring \<times> jsstring) list" where
  "magicMarkers =
     [(str ''424d'', str ''bmp''),
      (str ''ffd8ff'', str ''jpg''),
      (str ''47494638'', str ''gif''),
      (str ''89504e470d0a1a0a'', str ''png''),
      (str ''5249464657454250'', str ''webp'')]"

text \<open>
  What \<open>archiveImage\<close> and \<open>getImgExt\<close> throw: \<open>EmptyPayload id\<close> is the string
  \<open>Error, zero length: <id>\<close>, \<open>UnknownFormat\<close> is the string \<open>Unknown image type.\<close>,
  and \<open>FsError\<close> is an exception of \<open>node:fs\<close>.
\<close>

datatype archive_error = EmptyPayload jsstring | UnknownFormat | FsError

fun first_marker :: "(jsstring \<times> jsstring) list \<Rightarrow> jsstring \<Rightarrow> archive_error + jsstring" where
  "first_marker [] firstBytes = Inl UnknownFormat"
| "first_marker ((marker, ext) # ms) firstBytes =
     (if prefix marker firstBytes then Inr ext else first_marker ms firstBytes)"

definition getImgExt :: "byte list \<Rightarrow> archive_error + jsstring" where
  "getImgExt buffer = first_marker magicMarkers (toString_hex (take 8 buffer))"

text \<open>The signatures of the table as bytes.\<close>

definition signatures :: "(byte list \<times> jsstring) list" where
  "signatures =
     [([0x42, 0x4D], str ''bmp''),
      ([0xFF, 0xD8, 0xFF], str ''jpg''),
      ([0x47, 0x49, 0x46, 0x38], str ''gif''),
      ([0x89, 0x50, 0x4E, 0x47, 0x0D, 0x0A, 0x1A, 0x0A], str ''png''),
      ([0x52, 0x49, 0x46, 0x46, 0x57, 0x45, 0x42, 0x50], str ''webp'')]"

definition matches_signature :: "byte list \<Rightarrow> bool" where
  "matches_signature buffer = list_ex (\<lambda>(sig, ext). prefix sig buffer) signatures"

section \<open>archiveImage\<close>

text \<open>
  The \<open>details\<close> object. A field that is \<open>undefined\<close> or \<open>null\<close> is \<open>None\<close>; the fields
  the function does not read are the record's extension.
\<close>

record details =
  det_id :: "jsstring option"
  prompt :: "jsstring option"
  unixTime :: "int option"

definition empty_details :: details where
  "empty_details = \<lparr>det_id = None, prompt = None, unixTime = None\<rparr>"

text \<open>
  What a file holds: the bytes of an image, or the text \<open>JSON.stringify(details, null, 2)\<close>,
  kept here as the \<open>details\<close> it prints.
\<close>

datatype file_content = ImageData "byte list" | RecordJson details

text \<open>
  The state the function works on: the set \<open>archivedImages\<close>, the files and directories
  of the disk, and the objects the caller holds (\<open>objects r\<close> is the \<open>details\<close> object at
  reference \<open>r\<close>, which the function assigns to in place).
\<close>

record archive_state =
  archivedImages :: "jsstring set"
  files :: "jsstring \<rightharpoonup> file_content"
  dirs :: "jsstring set"
  objects :: "nat \<Rightarrow> details"

text \<open>
  What a call reads from outside: \<open>cfg.archivePath\<close>, the value \<open>crypto.randomUUID()\<close>
  returns, \<open>Date.now()\<close>, whether \<open>process.env['SKIP_RECORD']\<close> is set, and the calendar
  fields (year, month index, day of the month) of a time in milliseconds in the local
  time zone.
\<close>

record archive_env =
  archivePath :: jsstring
  randomUUID :: jsstring
  date_now :: int
  SKIP_RECORD :: bool
  local_date :: "int \<Rightarrow> int \<times> int \<times> int"

function show_nat :: "nat \<Rightarrow> jsstring" where
  "show_nat n = (if n < 10 then [cu CHR ''0'' + of_nat n]
                 else show_nat (n div 10) @ [cu CHR ''0'' + of_nat (n mod 10)])"
  by pat_completeness auto
termination
  by (relation "measure id") auto

declare show_nat.simps [simp del]

definition show_int :: "int \<Rightarrow> jsstring" where
  "show_int i = (if i < 0 then str ''-'' @ show_nat (nat (- i)) else show_nat (nat i))"

definition dateDir :: "archive_env \<Rightarrow> int \<Rightarrow> jsstring" where
  "dateDir env t =
     (case local_date env (t * 1000) of
        (year, month, day) \<Rightarrow>
          show_int year @ str ''/'' @ show_int (month + 1) @ str ''/'' @ show_int day)"

text \<open>\<open>path.dirname\<close> for a path written with \<open>/\<close>.\<close>

definition dirname :: "jsstring \<Rightarrow> jsstring" where
  "dirname p =
     (let upto_slash = rev (dropWhile (\<lambda>c. c \<noteq> cu CHR ''/'') (rev p));
          dir = rev (dropWhile (\<lambda>c. c = cu CHR ''/'') (rev upto_slash))
      in if upto_slash = [] then str ''.'' else if dir = [] then str ''/'' else dir)"

text \<open>The directory itself and the directories above it, as \<open>mkdirSync\<close> with \<open>recursive\<close> creates them.\<close>

function ancestors :: "jsstring \<Rightarrow> jsstring list" where
  "ancestors p = (if length (dirname p) < length p \<and> dirname p \<noteq> str ''/''
                  then p # ancestors (dirname p) else [p])"
  by pat_completeness auto
termination
  by (relation "measure length") auto

declare ancestors.simps [simp del]

definition ensureDirectory :: "jsstring \<Rightarrow> archive_state \<Rightarrow> archive_error + archive_state" where
  "ensureDirectory filePath s =
     (let dirPath = dirname filePath
      in if dirPath \<in> dirs s then Inr s
         else if list_ex (\<lambda>d. files s d \<noteq> None) (ancestors dirPath) then Inl FsError
         else Inr (s\<lparr>dirs := dirs s \<union> set (ancestors dirPath)\<rparr>))"

definition writeFileSync :: "jsstring \<Rightarrow> file_content \<Rightarrow> archive_state \<Rightarrow> archive_error + archive_state" where
  "writeFileSync path content s =
     (if path \<in> dirs s then Inl FsError
      else Inr (s\<lparr>files := (files s)(path \<mapsto> content)\<rparr>))"

text \<open>\<open>''+id\<close>: the string itself, and \<open>undefined\<close> for an absent id.\<close>

definition id_key :: "jsstring option \<Rightarrow> jsstring" where
  "id_key ident = (case ident of None \<Rightarrow> str ''undefined'' | Some i \<Rightarrow> i)"

text \<open>The id the call works with: \<open>!id\<close> holds of an absent id and of the empty string.\<close>

definition effective_id :: "archive_env \<Rightarrow> jsstring option \<Rightarrow> jsstring" where
  "effective_id env ident =
     (case ident of None \<Rightarrow> randomUUID env | Some i \<Rightarrow> if i = [] then randomUUID env else i)"

text \<open>\<open>Math.trunc(Date.now() / 1000)\<close>: the quotient rounded towards zero.\<close>

definition unix_seconds :: "int \<Rightarrow> int" where
  "unix_seconds ms = (if ms < 0 then - ((- ms) div 1000) else ms div 1000)"

text \<open>The values that \<open>??=\<close> leaves in \<open>details.prompt\<close> and \<open>details.unixTime\<close>.\<close>

definition prompt_or_default :: "details \<Rightarrow> jsstring" where
  "prompt_or_default d = (case prompt d of None \<Rightarrow> str ''[unknown prompt]'' | Some p \<Rightarrow> p)"

definition unixTime_or_now :: "archive_env \<Rightarrow> details \<Rightarrow> int" where
  "unixTime_or_now env d =
     (case unixTime d of None \<Rightarrow> unix_seconds (date_now env) | Some t \<Rightarrow> t)"

text \<open>The three assignments to \<open>details\<close>.\<close>

definition fill_details :: "archive_env \<Rightarrow> jsstring \<Rightarrow> details \<Rightarrow> details" where
  "fill_details env ident d =
     d\<lparr>det_id := Some ident, prompt := Some (prompt_or_default d),
       unixTime := Some (unixTime_or_now env d)\<rparr>"

text \<open>The two paths, from the id, the prompt and the time that \<open>details\<close> holds after the assignments.\<close>

definition imgPath :: "archive_env \<Rightarrow> jsstring \<Rightarrow> jsstring \<Rightarrow> int \<Rightarrow> jsstring \<Rightarrow> jsstring" where
  "imgPath env ident p t ext =
     archivePath env @ str ''/images/'' @ dateDir env t @ str ''/'' @
     imgFilename ident p @ str ''.'' @ ext"

definition recPath :: "archive_env \<Rightarrow> jsstring \<Rightarrow> int \<Rightarrow> jsstring" where
  "recPath env ident t =
     archivePath env @ str ''/database/'' @ dateDir env t @ str ''/'' @ ident @ str ''.json''"

text \<open>
  \<open>archiveImage({id, details, imgData})\<close>. \<open>details_ref\<close> is the reference of the caller's
  object, \<open>None\<close> when the caller passes none (the function then works on a fresh object
  of its own). Console output is not part of the model.
\<close>

definition archiveImage ::
  "archive_env \<Rightarrow> jsstring option \<Rightarrow> nat option \<Rightarrow> byte list \<Rightarrow> archive_state
     \<Rightarrow> (archive_error + unit) \<times> archive_state" where
  "archiveImage env ident details_ref imgData s =
     (if id_key ident \<in> archivedImages s then (Inr (), s)
      else
        let ident' = effective_id env ident in
        if length imgData = 0 then (Inl (EmptyPayload ident'), s)
        else
          let d0 = (case details_ref of None \<Rightarrow> empty_details | Some r \<Rightarrow> objects s r);
              d = fill_details env ident' d0;
              s1 = (case details_ref of None \<Rightarrow> s
                    | Some r \<Rightarrow> s\<lparr>objects := (objects s)(r := d)\<rparr>);
              p = prompt_or_default d0;
              t = unixTime_or_now env d0
          in case getImgExt imgData of
               Inl e \<Rightarrow> (Inl e, s1)
             | Inr ext \<Rightarrow>
                 (case ensureDirectory (imgPath env ident' p t ext) s1 of
                    Inl e \<Rightarrow> (Inl e, s1)
                  | Inr s2 \<Rightarrow>
                      (case writeFileSync (imgPath env ident' p t ext) (ImageData imgData) s2 of
                         Inl e \<Rightarrow> (Inl e, s2)
                       | Inr s3 \<Rightarrow>
                           if SKIP_RECORD env then (Inr (), s3)
                           else
                             (case ensureDirectory (recPath env ident' t) s3 of
                                Inl e \<Rightarrow> (Inl e, s3)
                              | Inr s4 \<Rightarrow>
                                  (case writeFileSync (recPath env ident' t) (RecordJson d) s4 of
                                     Inl e \<Rightarrow> (Inl e, s4)
                                   | Inr s5 \<Rightarrow>
                                       (Inr (),
                                        s5\<lparr>archivedImages :=
                                             insert (id_key (det_id d)) (archivedImages s5)\<rparr>))))))"

text \<open>A configuration, an empty archive and a payload to run the function on.\<close>

definition example_env :: archive_env where
  "example_env = \<lparr>archivePath = str ''/archive'', randomUUID = str ''uuid-1'',
     date_now = 1709640000123, SKIP_RECORD = False, local_date = (\<lambda>ms. (2024, 2, 5))\<rparr>"

definition example_state :: archive_state where
  "example_state = \<lparr>archivedImages = {}, files = Map.empty, dirs = {},
     objects = (\<lambda>r. empty_details)\<rparr>"

definition example_png :: "byte list" where
  "example_png = [0x89, 0x50, 0x4E, 0x47, 0x0D, 0x0A, 0x1A, 0x0A, 0x00]"

section \<open>wildcardToRegex\<close>

text \<open>
  The class \<open>[.+^${}()|[\]\\]\<close> of the first \<open>replace\<close>, whose replacement \<open>\\$&\<close> puts
  a backslash before the code unit matched.
\<close>

definition regex_special :: "code_unit \<Rightarrow> bool" where
  "regex_special c \<longleftrightarrow> c \<in> set (str ''.+^${}()|[]'') \<or> c = 0x5C"

definition replace_each :: "('a \<Rightarrow> bool) \<Rightarrow> ('a \<Rightarrow> 'a list) \<Rightarrow> 'a list \<Rightarrow> 'a list" where
  "replace_each matched replacement s =
     concat (map (\<lambda>c. if matched c then replacement c else [c]) s)"

definition wildcardToRegex_source :: "jsstring \<Rightarrow> jsstring" where
  "wildcardToRegex_source pattern =
     (let escaped = replace_each regex_special (\<lambda>c. [0x5C, c]) pattern;
          regexPattern =
            replace_each (\<lambda>c. c = cu CHR ''?'') (\<lambda>c. str ''.'')
              (replace_each (\<lambda>c. c = cu CHR ''*'') (\<lambda>c. str ''.*'') escaped)
      in str ''^'' @ regexPattern @ str ''$'')"

subsection \<open>The regular expressions that wildcardToRegex builds\<close>

text \<open>
  The built-in \<open>RegExp\<close> of the language, as ECMAScript defines it, for the patterns made
  of the assertions \<open>^\<close> and \<open>$\<close>, of literal code units, of a syntax character behind a
  backslash and of the dot, each of the last three with an optional \<open>*\<close>. No flag is set:
  \<open>^\<close> holds at the start of the input only, \<open>$\<close> at its end only, and the dot matches
  every code unit but the line terminators U+000A, U+000D, U+2028 and U+2029. Every
  other pattern is refused here; \<open>wildcardToRegex\<close> builds none (\<open>wildcardToRegex_terms\<close>
  below).
\<close>

datatype js_error = TypeError | SyntaxError | ConfigError | Thrown nat

datatype re_atom = Lit code_unit | Dot

datatype re_term = BOL | EOL | Atom re_atom | Star re_atom

type_synonym regexp = "re_term list"

definition syntax_char :: "code_unit \<Rightarrow> bool" where
  "syntax_char c \<longleftrightarrow> c \<in> set (str ''^$.*+?()[]{}|'') \<or> c = 0x5C"

definition line_terminator :: "code_unit \<Rightarrow> bool" where
  "line_terminator c \<longleftrightarrow> c = 0x0A \<or> c = 0x0D \<or> c = 0x2028 \<or> c = 0x2029"

text \<open>An atom with the \<open>*\<close> behind it, if there is one, and the rest of the pattern.\<close>

definition starred :: "re_atom \<Rightarrow> jsstring \<Rightarrow> re_term" where
  "starred a cs =
     (case cs of [] \<Rightarrow> Atom a | q # cs' \<Rightarrow> if q = cu CHR ''*'' then Star a else Atom a)"

definition behind_star :: "jsstring \<Rightarrow> jsstring" where
  "behind_star cs =
     (case cs of [] \<Rightarrow> [] | q # cs' \<Rightarrow> if q = cu CHR ''*'' then cs' else cs)"

lemma behind_star_length: "length (behind_star cs) \<le> length cs"
  by (simp add: behind_star_def split: list.split)

function parse_regex :: "jsstring \<Rightarrow> regexp option" where
  "parse_regex [] = Some []"
| "parse_regex (c # cs) =
     (if c = cu CHR ''^'' then map_option (Cons BOL) (parse_regex cs)
      else if c = cu CHR ''$'' then map_option (Cons EOL) (parse_regex cs)
      else if c = 0x5C then
        (case cs of
           [] \<Rightarrow> None
         | e # cs' \<Rightarrow>
             if syntax_char e
             then map_option (Cons (starred (Lit e) cs')) (parse_regex (behind_star cs'))
             else None)
      else if c = cu CHR ''.'' then
        map_option (Cons (starred Dot cs)) (parse_regex (behind_star cs))
      else if syntax_char c then None
      else map_option (Cons (starred (Lit c) cs)) (parse_regex (behind_star cs)))"
  by pat_completeness auto
termination
  by (relation "measure length")
    (simp_all add: behind_star_length le_imp_less_Suc less_Suc_eq_le le_SucI)

definition RegExp_new :: "jsstring \<Rightarrow> js_error + regexp" where
  "RegExp_new source = (case parse_regex source of None \<Rightarrow> Inl SyntaxError | Some r \<Rightarrow> Inr r)"

definition atom_matches :: "re_atom \<Rightarrow> code_unit \<Rightarrow> bool" where
  "atom_matches a x = (case a of Lit c \<Rightarrow> x = c | Dot \<Rightarrow> \<not> line_terminator x)"

text \<open>
  Whether the terms match at the current position: \<open>at_start\<close> tells whether the position is
  the start of the input, \<open>s\<close> is the input from the position on. Backtracking tries every
  number of repetitions of a starred atom, so a match is found whenever one exists.
\<close>

fun re_match :: "regexp \<Rightarrow> bool \<Rightarrow> jsstring \<Rightarrow> bool" where
  "re_match [] at_start s = True"
| "re_match (BOL # ts) at_start s = (at_start \<and> re_match ts at_start s)"
| "re_match (EOL # ts) at_start s = (s = [] \<and> re_match ts at_start s)"
| "re_match (Atom a # ts) at_start [] = False"
| "re_match (Atom a # ts) at_start (x # xs) = (atom_matches a x \<and> re_match ts False xs)"
| "re_match (Star a # ts) at_start [] = re_match ts at_start []"
| "re_match (Star a # ts) at_start (x # xs) =
     (re_match ts at_start (x # xs) \<or> (atom_matches a x \<and> re_match (Star a # ts) False xs))"

text \<open>\<open>RegExp.prototype.test\<close>: the match is tried at every position, from the start on.\<close>

fun re_search :: "regexp \<Rightarrow> bool \<Rightarrow> jsstring \<Rightarrow> bool" where
  "re_search r at_start [] = re_match r at_start []"
| "re_search r at_start (x # xs) = (re_match r at_start (x # xs) \<or> re_search r False xs)"

definition re_test :: "regexp \<Rightarrow> jsstring \<Rightarrow> bool" where
  "re_test r s = re_search r True s"

definition wildcardToRegex :: "jsstring \<Rightarrow> js_error + regexp" where
  "wildcardToRegex pattern = RegExp_new (wildcardToRegex_source pattern)"

text \<open>Compiling a wildcard pattern and testing a string with the result.\<close>

definition wildcard_test :: "jsstring \<Rightarrow> jsstring \<Rightarrow> js_error + bool" where
  "wildcard_test pattern s =
     (case wildcardToRegex pattern of Inl e \<Rightarrow> Inl e | Inr r \<Rightarrow> Inr (re_test r s))"

text \<open>The metacharacters of a wildcard pattern: the two wildcards and the characters the function escapes.\<close>

definition metachar :: "code_unit \<Rightarrow> bool" where
  "metachar c \<longleftrightarrow> c = cu CHR ''*'' \<or> c = cu CHR ''?'' \<or> regex_special c"

text \<open>
  What the three replacements make of one code unit of the pattern, and the term of the
  regular expression that stands for it.
\<close>

definition wild_piece :: "code_unit \<Rightarrow> jsstring" where
  "wild_piece c =
     (if regex_special c then [0x5C, c]
      else if c = cu CHR ''*'' then str ''.*''
      else if c = cu CHR ''?'' then str ''.''
      else [c])"

definition wild_term :: "code_unit \<Rightarrow> re_term" where
  "wild_term c =
     (if c = cu CHR ''*'' then Star Dot else if c = cu CHR ''?'' then Atom Dot else Atom (Lit c))"

section \<open>RegExpCache\<close>

text \<open>
  The cache maps a pattern to the regular expression compiled from it. The only cache of
  the program is built with \<open>wildcardToRegex: true\<close>, so \<open>get\<close> compiles with
  \<open>wildcardToRegex\<close>. \<open>testMultiple\<close> returns \<open>true\<close> at the first pattern that matches and
  \<open>undefined\<close>, which is \<open>False\<close> here, when none does.
\<close>

type_synonym regexp_cache = "jsstring \<rightharpoonup> regexp"

definition cache_get :: "regexp_cache \<Rightarrow> jsstring \<Rightarrow> (js_error + regexp) \<times> regexp_cache" where
  "cache_get cache pattern =
     (case cache pattern of
        Some regExp \<Rightarrow> (Inr regExp, cache)
      | None \<Rightarrow>
          (case wildcardToRegex pattern of
             Inl e \<Rightarrow> (Inl e, cache)
           | Inr regExp \<Rightarrow> (Inr regExp, cache(pattern \<mapsto> regExp))))"

fun testMultiple :: "regexp_cache \<Rightarrow> jsstring \<Rightarrow> jsstring list \<Rightarrow> (js_error + bool) \<times> regexp_cache" where
  "testMultiple cache s [] = (Inr False, cache)"
| "testMultiple cache s (pattern # patterns) =
     (case cache_get cache pattern of
        (Inl e, cache') \<Rightarrow> (Inl e, cache')
      | (Inr regExp, cache') \<Rightarrow>
          if re_test regExp s then (Inr True, cache') else testMultiple cache' s patterns)"

section \<open>initializeIntercept\<close>

subsection \<open>Configuration, protocol data and state\<close>

text \<open>\<open>from\<close> and \<open>intercept\<close> of a rule are a string or an array of strings.\<close>

datatype str_or_list = Single jsstring | Many "jsstring list"

definition as_list :: "str_or_list \<Rightarrow> jsstring list" where
  "as_list x = (case x of Single p \<Rightarrow> [p] | Many ps \<Rightarrow> ps)"

record capture_rule =
  rule_from :: str_or_list
  rule_intercept :: str_or_list
  serviceWorkerOnly :: bool
  enableNetworkFetch :: bool

record targetInfo =
  targetId :: jsstring
  target_url :: jsstring
  target_type :: jsstring

text \<open>
  What \<open>targetHandler(type, url, registerInspection)\<close> does before it returns or first
  suspends: it throws, or it calls \<open>registerInspection\<close> some number of times, each time
  with a list of patterns (the empty list when it passes none).
\<close>

datatype target_handler_result = TargetHandlerThrows js_error | Registers "jsstring list list"

text \<open>
  The arguments of \<open>initializeIntercept\<close> that the interception reads. A handler is a
  function of the caller: the configuration says whether it is supplied, and what a
  call of it does is given with the event that causes the call.
\<close>

record intercept_config =
  catchResponses :: "capture_rule list option"
  responseReceivedHandler :: bool
  targetHandler :: "(jsstring \<Rightarrow> jsstring \<Rightarrow> target_handler_result) option"
  requestPausedHandler :: bool

record request =
  request_url :: jsstring

record response =
  status :: "int option"
  statusText :: "jsstring option"
  headers :: "(jsstring \<times> jsstring) list option"

text \<open>
  The object passed to \<open>responseReceivedHandler\<close>; an entry of
  \<open>networkResponseCatchQueue\<close> is such an object with \<open>asFetch: false\<close>, without \<open>networkId\<close>
  and with its \<open>response\<close> set once \<open>Network.responseReceived\<close> has come.
\<close>

record report =
  initiator :: jsstring
  asFetch :: bool
  requestId :: jsstring
  networkId :: "jsstring option"
  sessionId :: nat
  report_request :: request
  report_response :: "response option"

text \<open>The parameters of \<open>Fetch.requestPaused\<close> that the handler reads.\<close>

record paused_args =
  paused_requestId :: jsstring
  paused_networkId :: "jsstring option"
  paused_request :: request
  responseStatusCode :: "int option"
  responseStatusText :: "jsstring option"
  responseHeaders :: "(jsstring \<times> jsstring) list option"

text \<open>
  What an awaited call does: it returns a value, it throws (or its promise rejects), or
  its promise never settles.
\<close>

datatype 'a outcome = Returns 'a | Throws js_error | Pending

text \<open>
  With a \<open>Fetch.requestPaused\<close> event: what \<open>responseReceivedHandler\<close> does if it is
  called, what \<open>requestPausedHandler\<close> does if it is called (the value it returns read as
  a truth value) and the error of the \<open>Fetch.continueRequest\<close> command if it fails.
\<close>

record pause_env =
  response_handler :: "unit outcome"
  paused_handler :: "bool outcome"
  continue_error :: "js_error option"

text \<open>
  With a target notification: the session \<open>cdp.newSession\<close> returns (or the error it
  throws) and the errors, if any, of \<open>session.ready\<close>, \<open>Fetch.enable\<close>,
  \<open>Network.enable\<close> and \<open>detach\<close>.
\<close>

record bind_env =
  new_session :: "js_error + nat"
  ready_error :: "js_error option"
  fetch_enable_error :: "js_error option"
  network_enable_error :: "js_error option"
  detach_error :: "js_error option"

text \<open>The operations of the program that a claim speaks about, in the order they are done.\<close>

datatype effect =
    NewSession jsstring nat
  | ResolveRegistration "nat option"
  | FetchEnable nat "jsstring list"
  | NetworkEnable nat
  | Detach nat
  | AbortNetworkCatch "jsstring option"
  | ResponseReceivedCall report
  | RequestPausedCall paused_args
  | ContinueRequest nat jsstring
  | Debug js_error
  | Uncaught js_error

text \<open>
  What the handlers registered on a session have captured from the call of
  \<open>inspectTargetOrNot\<close> that bound it: \<open>url\<close>, \<open>patterns\<close>, \<open>shouldInspect\<close>, and whether the
  three \<open>Network\<close> handlers are registered. The \<open>Fetch.requestPaused\<close> handler is
  registered on every session that has such a record.
\<close>

record listener =
  listener_url :: jsstring
  listener_patterns :: "jsstring list"
  listener_shouldInspect :: nat
  listener_network :: bool

record intercept_state =
  sessions :: "jsstring \<rightharpoonup> nat"
  networkResponseCatchQueue :: "jsstring \<rightharpoonup> report"
  listeners :: "nat \<rightharpoonup> listener"
  regExpCache :: regexp_cache

definition initial_state :: intercept_state where
  "initial_state = \<lparr>sessions = Map.empty, networkResponseCatchQueue = Map.empty,
     listeners = Map.empty, regExpCache = Map.empty\<rparr>"

definition shouldInspectBy_targetHandler :: nat where
  "shouldInspectBy_targetHandler = 1"

definition shouldInspectBy_responseCatcher :: nat where
  "shouldInspectBy_responseCatcher = 2"

subsection \<open>The start of initializeIntercept\<close>

text \<open>
  What the start reads from outside: \<open>cfg.webSocketDebuggerUrl\<close>, the address
  \<open>initChrome\<close> returns (or its error), and the errors, if any, of \<open>cdp.ready\<close> and of
  \<open>Target.setDiscoverTargets\<close>.
\<close>

record init_env =
  webSocketDebuggerUrl :: "jsstring option"
  initChrome :: "nat + jsstring"
  cdp_ready_error :: "nat option"
  discover_error :: "nat option"

datatype init_step = InitChrome | OpenConnection jsstring | SetDiscoverTargets

datatype init_result = InitRejected js_error | ProcessExit | Initialized intercept_state

definition initializeIntercept :: "intercept_config \<Rightarrow> init_env \<Rightarrow> init_result \<times> init_step list" where
  "initializeIntercept cfg env =
     (if (catchResponses cfg \<noteq> None \<or> responseReceivedHandler cfg) \<and>
         \<not> (catchResponses cfg \<noteq> None \<and> responseReceivedHandler cfg)
      then (InitRejected ConfigError, [])
      else
        let configured = (case webSocketDebuggerUrl env of None \<Rightarrow> [] | Some u \<Rightarrow> u);
            connect = (if configured \<noteq> [] then (Inr configured, [])
                       else (initChrome env, [InitChrome]))
        in case fst connect of
             Inl e \<Rightarrow> (ProcessExit, snd connect)
           | Inr u \<Rightarrow>
               (case cdp_ready_error env of
                  Some e \<Rightarrow> (InitRejected (Thrown e), snd connect @ [OpenConnection u])
                | None \<Rightarrow>
                    (case discover_error env of
                       Some e \<Rightarrow>
                         (InitRejected (Thrown e),
                          snd connect @ [OpenConnection u, SetDiscoverTargets])
                     | None \<Rightarrow>
                         (Initialized initial_state,
                          snd connect @ [OpenConnection u, SetDiscoverTargets]))))"

subsection \<open>inspectTargetOrNot\<close>

text \<open>
  The loop over \<open>catchResponses\<close>: the patterns of the rules that match the target and
  whether one of them asks for \<open>enableNetworkFetch\<close>.
\<close>

fun collect_rules ::
  "regexp_cache \<Rightarrow> targetInfo \<Rightarrow> capture_rule list \<Rightarrow> jsstring list \<Rightarrow> bool
     \<Rightarrow> (js_error + jsstring list \<times> bool) \<times> regexp_cache" where
  "collect_rules cache ti [] patterns networkFetchEnabled =
     (Inr (patterns, networkFetchEnabled), cache)"
| "collect_rules cache ti (r # rs) patterns networkFetchEnabled =
     (case testMultiple cache (target_url ti) (as_list (rule_from r)) of
        (Inl e, cache') \<Rightarrow> (Inl e, cache')
      | (Inr matched, cache') \<Rightarrow>
          if matched \<and> (\<not> serviceWorkerOnly r \<or> target_type ti = str ''service_worker'')
          then collect_rules cache' ti rs (patterns @ as_list (rule_intercept r))
                 (networkFetchEnabled \<or> enableNetworkFetch r)
          else collect_rules cache' ti rs patterns networkFetchEnabled)"

text \<open>
  The interest in a target: \<open>shouldInspect\<close>, \<open>patterns\<close>, \<open>networkFetchEnabled\<close> and
  whether \<open>registerInspection\<close> was called. The loop over an absent \<open>catchResponses\<close>
  throws a \<open>TypeError\<close>. The bit of the response catcher is set from the patterns of the
  rules, before \<open>targetHandler\<close> adds its own.
\<close>

record interest =
  shouldInspect :: nat
  patterns :: "jsstring list"
  networkFetchEnabled :: bool
  registered :: bool

definition evaluate_interest ::
  "intercept_config \<Rightarrow> targetInfo \<Rightarrow> regexp_cache \<Rightarrow> (js_error + interest) \<times> regexp_cache" where
  "evaluate_interest cfg ti cache =
     (case catchResponses cfg of
        None \<Rightarrow> (Inl TypeError, cache)
      | Some rules \<Rightarrow>
          (case collect_rules cache ti rules [] False of
             (Inl e, cache') \<Rightarrow> (Inl e, cache')
           | (Inr (ps, nfe), cache') \<Rightarrow>
               let catcher = (if ps \<noteq> [] then 0 OR shouldInspectBy_responseCatcher else 0)
               in case (case targetHandler cfg of
                          None \<Rightarrow> Registers []
                        | Some handler \<Rightarrow> handler (target_type ti) (target_url ti)) of
                    TargetHandlerThrows e \<Rightarrow> (Inl e, cache')
                  | Registers calls \<Rightarrow>
                      (Inr \<lparr>shouldInspect =
                              (if calls \<noteq> [] then catcher OR shouldInspectBy_targetHandler
                               else catcher),
                            patterns = ps @ concat calls,
                            networkFetchEnabled = nfe,
                            registered = (calls \<noteq> [])\<rparr>,
                       cache')))"

text \<open>The \<open>catch\<close> of the binding: the error is logged and a registration is resolved with \<open>false\<close>.\<close>

definition bind_failed :: "interest \<Rightarrow> js_error \<Rightarrow> effect list" where
  "bind_failed i e =
     Debug e # (if registered i then [ResolveRegistration None] else [])"

definition new_listener :: "targetInfo \<Rightarrow> interest \<Rightarrow> bool \<Rightarrow> listener" where
  "new_listener ti i network =
     \<lparr>listener_url = target_url ti, listener_patterns = patterns i,
      listener_shouldInspect = shouldInspect i, listener_network = network\<rparr>"

text \<open>
  The binding of a target to a new session. The session is entered into \<open>sessions\<close>
  before \<open>session.ready\<close> is awaited; the handlers are registered after the last awaited
  command, the three \<open>Network\<close> handlers only under \<open>networkFetchEnabled\<close>.
\<close>

definition bind_target ::
  "bind_env \<Rightarrow> targetInfo \<Rightarrow> interest \<Rightarrow> intercept_state \<Rightarrow> effect list \<times> intercept_state" where
  "bind_target env ti i st =
     (case new_session env of
        Inl e \<Rightarrow> (bind_failed i e, st)
      | Inr session \<Rightarrow>
          let st1 = st\<lparr>sessions := (sessions st)(targetId ti \<mapsto> session)\<rparr>;
              started = [NewSession (targetId ti) session];
              wire = (\<lambda>network.
                st1\<lparr>listeners := (listeners st1)(session \<mapsto> new_listener ti i network)\<rparr>)
          in case ready_error env of
               Some e \<Rightarrow> (started @ bind_failed i e, st1)
             | None \<Rightarrow>
                 let resolved = started @
                       (if registered i then [ResolveRegistration (Some session)] else [])
                 in if shouldInspect i AND shouldInspectBy_responseCatcher = 0
                    then (resolved, wire False)
                    else
                      (case fetch_enable_error env of
                         Some e \<Rightarrow>
                           (resolved @ FetchEnable session (patterns i) # bind_failed i e, st1)
                       | None \<Rightarrow>
                           if \<not> networkFetchEnabled i
                           then (resolved @ [FetchEnable session (patterns i)], wire False)
                           else
                             (case network_enable_error env of
                                Some e \<Rightarrow>
                                  (resolved @ FetchEnable session (patterns i) #
                                     NetworkEnable session # bind_failed i e, st1)
                              | None \<Rightarrow>
                                  (resolved @ [FetchEnable session (patterns i),
                                     NetworkEnable session], wire True))))"

text \<open>
  \<open>inspectTargetOrNot\<close>, run from a notification to its end: the result is the error with
  which its promise rejects, or \<open>Inr ()\<close>.
\<close>

definition inspectTargetOrNot ::
  "intercept_config \<Rightarrow> bind_env \<Rightarrow> targetInfo \<Rightarrow> intercept_state
     \<Rightarrow> (js_error + unit) \<times> effect list \<times> intercept_state" where
  "inspectTargetOrNot cfg env ti st =
     (let beingInspected = sessions st (targetId ti)
      in case evaluate_interest cfg ti (regExpCache st) of
           (Inl e, cache) \<Rightarrow> (Inl e, [], st\<lparr>regExpCache := cache\<rparr>)
         | (Inr i, cache) \<Rightarrow>
             let st0 = st\<lparr>regExpCache := cache\<rparr>;
                 bound = (if shouldInspect i \<noteq> 0 \<and> beingInspected = None
                          then bind_target env ti i st0
                          else (if registered i then [ResolveRegistration None] else [], st0))
             in case beingInspected of
                  Some session \<Rightarrow>
                    if shouldInspect i = 0
                    then (Inr (),
                          fst bound @ Detach session #
                            (case detach_error env of None \<Rightarrow> [] | Some e \<Rightarrow> [Debug e]),
                          (snd bound)\<lparr>sessions := (sessions (snd bound))(targetId ti := None)\<rparr>)
                    else (Inr (), fst bound, snd bound)
                | None \<Rightarrow> (Inr (), fst bound, snd bound))"

subsection \<open>The handlers of a session\<close>

definition on_requestWillBeSent ::
  "nat \<Rightarrow> listener \<Rightarrow> request \<Rightarrow> jsstring \<Rightarrow> intercept_state \<Rightarrow> effect list \<times> intercept_state" where
  "on_requestWillBeSent session l req rid st =
     (case testMultiple (regExpCache st) (request_url req) (listener_patterns l) of
        (Inl e, cache) \<Rightarrow> ([Uncaught e], st\<lparr>regExpCache := cache\<rparr>)
      | (Inr matched, cache) \<Rightarrow>
          if matched
          then ([], st\<lparr>regExpCache := cache,
                      networkResponseCatchQueue := (networkResponseCatchQueue st)(rid \<mapsto>
                        \<lparr>initiator = listener_url l, asFetch = False, requestId = rid,
                         networkId = None, sessionId = session, report_request = req,
                         report_response = None\<rparr>)\<rparr>)
          else ([], st\<lparr>regExpCache := cache\<rparr>))"

definition on_responseReceived ::
  "response \<Rightarrow> jsstring \<Rightarrow> intercept_state \<Rightarrow> effect list \<times> intercept_state" where
  "on_responseReceived resp rid st =
     (case networkResponseCatchQueue st rid of
        None \<Rightarrow> ([], st)
      | Some result \<Rightarrow>
          ([], st\<lparr>networkResponseCatchQueue := (networkResponseCatchQueue st)(rid \<mapsto>
                    result\<lparr>report_response := Some resp\<rparr>)\<rparr>))"

text \<open>Calling a handler that is not supplied throws a \<open>TypeError\<close>.\<close>

definition on_loadingFinished ::
  "intercept_config \<Rightarrow> jsstring \<Rightarrow> intercept_state \<Rightarrow> effect list \<times> intercept_state" where
  "on_loadingFinished cfg rid st =
     (case networkResponseCatchQueue st rid of
        None \<Rightarrow> ([], st)
      | Some result \<Rightarrow>
          (if responseReceivedHandler cfg then [ResponseReceivedCall result]
           else [Uncaught TypeError],
           st\<lparr>networkResponseCatchQueue := (networkResponseCatchQueue st)(rid := None)\<rparr>))"

text \<open>\<open>networkResponseCatchQueue.delete(networkId)\<close>; no entry has the key \<open>undefined\<close>.\<close>

definition queue_delete :: "jsstring option \<Rightarrow> intercept_state \<Rightarrow> intercept_state" where
  "queue_delete nid st =
     (case nid of
        None \<Rightarrow> st
      | Some k \<Rightarrow> st\<lparr>networkResponseCatchQueue := (networkResponseCatchQueue st)(k := None)\<rparr>)"

definition fetch_report :: "nat \<Rightarrow> listener \<Rightarrow> paused_args \<Rightarrow> report" where
  "fetch_report session l args =
     \<lparr>initiator = listener_url l, asFetch = True, requestId = paused_requestId args,
      networkId = paused_networkId args, sessionId = session,
      report_request = paused_request args,
      report_response = Some \<lparr>status = responseStatusCode args,
        statusText = responseStatusText args, headers = responseHeaders args\<rparr>\<rparr>"

text \<open>
  How the \<open>try\<close> block with its \<open>catch\<close> ends: it has run to its end or an error has been
  caught, with the value of \<open>doNotContinue\<close>, or an awaited promise never settles and the
  handler never gets further.
\<close>

datatype try_result = Completed bool | Suspended

definition paused_stage ::
  "intercept_config \<Rightarrow> listener \<Rightarrow> paused_args \<Rightarrow> pause_env \<Rightarrow> effect list \<times> try_result" where
  "paused_stage cfg l args env =
     (if listener_shouldInspect l AND shouldInspectBy_targetHandler \<noteq> 0 \<and>
         requestPausedHandler cfg
      then (case paused_handler env of
              Returns doNotContinue \<Rightarrow> ([RequestPausedCall args], Completed doNotContinue)
            | Throws e \<Rightarrow> ([RequestPausedCall args, Debug e], Completed False)
            | Pending \<Rightarrow> ([RequestPausedCall args], Suspended))
      else ([], Completed False))"

definition try_block ::
  "intercept_config \<Rightarrow> nat \<Rightarrow> listener \<Rightarrow> paused_args \<Rightarrow> pause_env
     \<Rightarrow> effect list \<times> try_result" where
  "try_block cfg session l args env =
     (if listener_shouldInspect l AND shouldInspectBy_responseCatcher \<noteq> 0
      then
        (if \<not> responseReceivedHandler cfg
         then ([AbortNetworkCatch (paused_networkId args), Debug TypeError], Completed False)
         else
           let called = [AbortNetworkCatch (paused_networkId args),
                         ResponseReceivedCall (fetch_report session l args)]
           in case response_handler env of
                Returns u \<Rightarrow>
                  (called @ fst (paused_stage cfg l args env), snd (paused_stage cfg l args env))
              | Throws e \<Rightarrow> (called @ [Debug e], Completed False)
              | Pending \<Rightarrow> (called, Suspended))
      else paused_stage cfg l args env)"

definition finally_block :: "nat \<Rightarrow> paused_args \<Rightarrow> pause_env \<Rightarrow> bool \<Rightarrow> effect list" where
  "finally_block session args env doNotContinue =
     (if \<not> doNotContinue
      then ContinueRequest session (paused_requestId args) #
             (case continue_error env of None \<Rightarrow> [] | Some e \<Rightarrow> [Debug e])
      else [])"

text \<open>
  The handler of \<open>Fetch.requestPaused\<close>. Its only change of the state is the deletion
  from the queue, done before the first \<open>await\<close>; the result tells how its promise
  ends: \<open>Some (Inr ())\<close> when it resolves, \<open>Some (Inl e)\<close> when it rejects with \<open>e\<close>, \<open>None\<close>
  when it never settles.
\<close>

definition on_requestPaused ::
  "intercept_config \<Rightarrow> nat \<Rightarrow> listener \<Rightarrow> paused_args \<Rightarrow> pause_env \<Rightarrow> intercept_state
     \<Rightarrow> (js_error + unit) option \<times> effect list \<times> intercept_state" where
  "on_requestPaused cfg session l args env st =
     (let st' = (if listener_shouldInspect l AND shouldInspectBy_responseCatcher \<noteq> 0
                 then queue_delete (paused_networkId args) st else st)
      in case try_block cfg session l args env of
           (effects, Completed doNotContinue) \<Rightarrow>
             (Some (Inr ()), effects @ finally_block session args env doNotContinue, st')
         | (effects, Suspended) \<Rightarrow> (None, effects, st'))"

subsection \<open>Events\<close>

text \<open>
  The events the transport delivers: a target notification (\<open>Target.targetCreated\<close> or
  \<open>Target.targetInfoChanged\<close>), the \<open>detached\<close> event of the session of a target, and the
  \<open>Network\<close> and \<open>Fetch\<close> events of a session. Each handler is run from its event to its
  end in one step: while a handler is suspended in an \<open>await\<close> it has either made all its
  changes of the state already or, in \<open>inspectTargetOrNot\<close>, entered the session into
  \<open>sessions\<close> already.
\<close>

datatype event =
    TargetEvent targetInfo bind_env
  | SessionDetached jsstring
  | RequestWillBeSent nat request jsstring
  | ResponseReceived nat response jsstring
  | LoadingFinished nat jsstring
  | RequestPaused nat paused_args pause_env

fun step :: "intercept_config \<Rightarrow> event \<Rightarrow> intercept_state \<Rightarrow> effect list \<times> intercept_state" where
  "step cfg (TargetEvent ti env) st =
     (case inspectTargetOrNot cfg env ti st of
        (Inl e, effects, st') \<Rightarrow> (effects @ [Uncaught e], st')
      | (Inr u, effects, st') \<Rightarrow> (effects, st'))"
| "step cfg (SessionDetached tid) st = ([], st\<lparr>sessions := (sessions st)(tid := None)\<rparr>)"
| "step cfg (RequestWillBeSent session req rid) st =
     (case listeners st session of
        None \<Rightarrow> ([], st)
      | Some l \<Rightarrow> if listener_network l then on_requestWillBeSent session l req rid st else ([], st))"
| "step cfg (ResponseReceived session resp rid) st =
     (case listeners st session of
        None \<Rightarrow> ([], st)
      | Some l \<Rightarrow> if listener_network l then on_responseReceived resp rid st else ([], st))"
| "step cfg (LoadingFinished session rid) st =
     (case listeners st session of
        None \<Rightarrow> ([], st)
      | Some l \<Rightarrow> if listener_network l then on_loadingFinished cfg rid st else ([], st))"
| "step cfg (RequestPaused session args env) st =
     (case listeners st session of
        None \<Rightarrow> ([], st)
      | Some l \<Rightarrow> snd (on_requestPaused cfg session l args env st))"

fun run :: "intercept_config \<Rightarrow> event list \<Rightarrow> intercept_state \<Rightarrow> effect list \<times> intercept_state" where
  "run cfg [] st = ([], st)"
| "run cfg (ev # evs) st =
     (fst (step cfg ev st) @ fst (run cfg evs (snd (step cfg ev st))),
      snd (run cfg evs (snd (step cfg ev st))))"

text \<open>A report of the observation channel for a request id, and the events that create and emit an entry for it.\<close>

definition network_report_for :: "jsstring \<Rightarrow> effect \<Rightarrow> bool" where
  "network_report_for rid eff =
     (case eff of ResponseReceivedCall r \<Rightarrow> \<not> asFetch r \<and> requestId r = rid | _ \<Rightarrow> False)"

definition request_sent_for :: "jsstring \<Rightarrow> event \<Rightarrow> bool" where
  "request_sent_for rid ev =
     (case ev of RequestWillBeSent session req rid' \<Rightarrow> rid' = rid | _ \<Rightarrow> False)"

definition loading_finished_for :: "jsstring \<Rightarrow> event \<Rightarrow> bool" where
  "loading_finished_for rid ev =
     (case ev of LoadingFinished session rid' \<Rightarrow> rid' = rid | _ \<Rightarrow> False)"

text \<open>Every entry of the queue is stored under its own request id and is an observation.\<close>

definition queue_keyed :: "intercept_state \<Rightarrow> bool" where
  "queue_keyed st \<longleftrightarrow>
     (\<forall>k r. networkResponseCatchQueue st k = Some r \<longrightarrow> requestId r = k \<and> \<not> asFetch r)"

text \<open>
  A configuration with one rule, which asks for the observation channel, and the data
  of a run: a page, a binding that succeeds, and a request.
\<close>

definition example_config :: intercept_config where
  "example_config =
     \<lparr>catchResponses = Some [\<lparr>rule_from = Single (str ''a*''), rule_intercept = Single (str ''*''),
        serviceWorkerOnly = False, enableNetworkFetch = True\<rparr>],
      responseReceivedHandler = True, targetHandler = None, requestPausedHandler = False\<rparr>"

definition page :: "string \<Rightarrow> string \<Rightarrow> targetInfo" where
  "page tid url = \<lparr>targetId = str tid, target_url = str url, target_type = str ''page''\<rparr>"

definition binds_as :: "nat \<Rightarrow> bind_env" where
  "binds_as session = \<lparr>new_session = Inr session, ready_error = None,
     fetch_enable_error = None, network_enable_error = None, detach_error = None\<rparr>"

definition example_request :: request where
  "example_request = \<lparr>request_url = str ''x''\<rparr>"

definition example_entry :: report where
  "example_entry = \<lparr>initiator = str ''ab'', asFetch = False, requestId = str ''r'',
     networkId = None, sessionId = 1, report_request = example_request,
     report_response = None\<rparr>"

text \<open>
  The raw-pause handler has been called and has returned a true value: the handler of
  \<open>responseReceivedHandler\<close>, if it had to be called first, has returned.
\<close>

definition doNotContinue_signalled :: "intercept_config \<Rightarrow> listener \<Rightarrow> pause_env \<Rightarrow> bool" where
  "doNotContinue_signalled cfg l env \<longleftrightarrow>
     (listener_shouldInspect l AND shouldInspectBy_responseCatcher = 0 \<or>
      (responseReceivedHandler cfg \<and> response_handler env = Returns ())) \<and>
     listener_shouldInspect l AND shouldInspectBy_targetHandler \<noteq> 0 \<and>
     requestPausedHandler cfg \<and> paused_handler env = Returns True"

text \<open>An effect that binds a target to a session.\<close>

definition binds_session :: "effect \<Rightarrow> bool" where
  "binds_session eff = (case eff of NewSession tid session \<Rightarrow> True | _ \<Rightarrow> False)"

text \<open>
  More data to run the interception on: configurations without rules or without a
  handler, the outcome of a start, the handlers of the session bound in \<open>observed_run\<close>,
  a paused request for the request observed there, and what the handlers do with it.
\<close>

definition bare_config :: intercept_config where
  "bare_config = \<lparr>catchResponses = None, responseReceivedHandler = False,
     targetHandler = None, requestPausedHandler = False\<rparr>"

definition rules_only_config :: intercept_config where
  "rules_only_config = \<lparr>catchResponses = Some [], responseReceivedHandler = False,
     targetHandler = None, requestPausedHandler = False\<rparr>"

definition handler_only_config :: intercept_config where
  "handler_only_config = \<lparr>catchResponses = None, responseReceivedHandler = True,
     targetHandler = None, requestPausedHandler = False\<rparr>"

definition example_init :: init_env where
  "example_init = \<lparr>webSocketDebuggerUrl = None, initChrome = Inr (str ''ws://x''),
     cdp_ready_error = None, discover_error = None\<rparr>"

definition both_handlers_config :: intercept_config where
  "both_handlers_config = example_config\<lparr>requestPausedHandler := True\<rparr>"

definition example_listener :: listener where
  "example_listener = \<lparr>listener_url = str ''ab'', listener_patterns = [str ''*''],
     listener_shouldInspect = 2, listener_network = True\<rparr>"

definition example_paused :: paused_args where
  "example_paused = \<lparr>paused_requestId = str ''f'', paused_networkId = Some (str ''r''),
     paused_request = example_request, responseStatusCode = Some 200,
     responseStatusText = None, responseHeaders = None\<rparr>"

definition handlers_return :: pause_env where
  "handlers_return = \<lparr>response_handler = Returns (), paused_handler = Returns True,
     continue_error = None\<rparr>"

definition paused_throws :: pause_env where
  "paused_throws = \<lparr>response_handler = Returns (), paused_handler = Throws (Thrown 8),
     continue_error = None\<rparr>"

definition handler_throws :: pause_env where
  "handler_throws = \<lparr>response_handler = Throws (Thrown 7), paused_handler = Returns True,
     continue_error = Some (Thrown 9)\<rparr>"

definition observed_run :: "event list" where
  "observed_run =
     [TargetEvent (page ''t'' ''ab'') (binds_as 1),
      RequestWillBeSent 1 example_request (str ''r'')]"

definition changed_run :: "event list" where
  "changed_run = observed_run @ [TargetEvent (page ''t'' ''b'') (binds_as 2)]"

definition destroyed_run :: "event list" where
  "destroyed_run = observed_run @ [SessionDetached (str ''t'')]"

definition no_interest :: interest where
  "no_interest = \<lparr>shouldInspect = 0, patterns = [], networkFetchEnabled = False,
     registered = False\<rparr>"

definition archived_state :: archive_state where
  "archived_state = example_state\<lparr>archivedImages := {str ''42''}\<rparr>"

section \<open>Properties of imgFilename\<close>

lemma replaceAll_single:
  "replaceAll [a] rep s = concat (map (\<lambda>c. if c = a then rep else [c]) s)"
  by (induction s) auto

lemma replaceAll_pair_miss:
  "y = [] \<or> hd y \<noteq> b \<Longrightarrow> replaceAll [a, b] rep (x # y) = x # replaceAll [a, b] rep y"
  by (cases y) auto

lemma replaceAll_pair_hd:
  "d \<noteq> b \<Longrightarrow> r \<noteq> b \<Longrightarrow> 
   replaceAll [a, b] [r] (d # cs) \<noteq> [] \<and> hd (replaceAll [a, b] [r] (d # cs)) \<noteq> b"
  by (cases cs) auto

lemma stage3_eq: "stage3 s = concat (map sanitize_unit s)"
  unfolding stage3_def str_def
  apply (simp add: replaceAll_single)
  apply (induction s)
   apply (auto simp: sanitize_unit_def str_def filename_char_def)
  done

lemma chain_eq: "replace_chain p = stage3 (stage2 (stage1 p))"
  by (simp add: replace_chain_def stage3_def stage1_def stage2_def Let_def)

lemma stage12_pairs: "stage2 (stage1 p) = pairs p"
proof (induction p rule: pairs.induct)
  case 1
  show ?case by (simp add: stage1_def stage2_def str_def)
next
  case (2 c)
  show ?case by (simp add: stage1_def stage2_def str_def)
next
  case (3 c d cs)
  consider (dot) "c = cu CHR ''.''" "d = cu CHR '' ''"
    | (comma) "c = cu CHR '',''" "d = cu CHR '' ''"
    | (other) "\<not> ((c = cu CHR ''.'' \<or> c = cu CHR '','') \<and> d = cu CHR '' '')"
    by blast
  then show ?case
  proof cases
    case dot
    with 3 show ?thesis
      by (simp add: stage1_def stage2_def str_def)
  next
    case comma
    with 3 show ?thesis
      by (simp add: stage1_def stage2_def str_def)
  next
    case other
    with 3 have IH: "stage2 (stage1 (d # cs)) = pairs (d # cs)" by simp
    have s1: "stage1 (c # d # cs) = c # stage1 (d # cs)"
      using other by (auto simp: stage1_def str_def)
    have s2: "stage2 (c # stage1 (d # cs)) = c # stage2 (stage1 (d # cs))"
    proof (cases "c = cu CHR '',''")
      case False
      then show ?thesis by (simp add: stage2_def str_def)
    next
      case True
      with other have "d \<noteq> cu CHR '' ''" by simp
      then have "stage1 (d # cs) \<noteq> [] \<and> hd (stage1 (d # cs)) \<noteq> cu CHR '' ''"
        unfolding stage1_def str_def
        using replaceAll_pair_hd [of d "cu CHR '' ''" "cu CHR ''_''" "cu CHR ''.''" cs]
        by simp
      then show ?thesis
        unfolding stage2_def str_def
        using replaceAll_pair_miss [of "stage1 (d # cs)" "cu CHR '' ''" "cu CHR '',''" "[cu CHR ''_'']" c]
        by simp
    qed
    show ?thesis using other s1 s2 IH by auto
  qed
qed

lemma sanitize_unit_underscore: "sanitize_unit 95 = str ''_''"
  by (simp add: sanitize_unit_def filename_char_def str_def)

lemma stage3_pairs: "concat (map sanitize_unit (pairs p)) = sanitize_spec p"
  by (induction p rule: sanitize_spec.induct) (simp_all add: sanitize_unit_underscore)

lemma replace_chain_spec: "replace_chain p = sanitize_spec p"
  by (simp add: chain_eq stage12_pairs stage3_eq stage3_pairs)

text \<open>
  C8: the file name built for the id \<open>42\<close> and the prompt \<open>A cat, sleeping. Peacefully!\<close>
  is \<open>42-A-cat_sleeping_Peacefully\<close>. In general the file name is the id, a hyphen and
  the sanitized prompt: the prompt with every full stop or comma (together with a space
  behind it) turned into the separator \<open>_\<close>, every space into a hyphen and every code unit
  outside \<open>[A-Za-z0-9-_]\<close> dropped, and with one trailing separator cut; a name longer than
  240 code units is cut to its first 240, with the marker appended.
\<close>

theorem imgFilename_sanitization:
  "imgFilename (str ''42'') (str ''A cat, sleeping. Peacefully!'') =
     str ''42-A-cat_sleeping_Peacefully'' \<and>
   imgFilename ident p =
     (let filename = ident @ str ''-'' @ strip_trailing_separator (sanitize_spec p)
      in if length filename > 240 then take 240 filename @ truncation_marker else filename) \<and>
   list_all filename_char (sanitize_spec p)"
proof -
  have "imgFilename (str ''42'') (str ''A cat, sleeping. Peacefully!'') =
      str ''42-A-cat_sleeping_Peacefully''"
    by code_simp
  moreover have "imgFilename ident p =
     (let filename = ident @ str ''-'' @ strip_trailing_separator (sanitize_spec p)
      in if length filename > 240 then take 240 filename @ truncation_marker else filename)"
    by (simp add: imgFilename_def strip_trailing_separator_def replace_chain_spec maxLength_def
        Let_def)
  moreover have "list_all filename_char (sanitize_spec p)"
    unfolding replace_chain_spec [symmetric] replace_chain_def Let_def
    by (simp add: list_all_iff)
  ultimately show ?thesis by simp
qed

section \<open>Properties of getImgExt and archiveImage\<close>

lemma hex_digit_inj: "m < 16 \<Longrightarrow> n < 16 \<Longrightarrow> hex_digit m = hex_digit n \<Longrightarrow> m = n"
proof -
  assume m: "m < 16" and n: "n < 16" and eq: "hex_digit m = hex_digit n"
  have unat_hex: "\<And>k. k < 16 \<Longrightarrow> unat (hex_digit k) = (if k < 10 then 48 + k else 87 + k)"
    by (auto simp: hex_digit_def unat_word_ariths unat_of_nat)
  from eq have "unat (hex_digit m) = unat (hex_digit n)" by simp
  with m n show "m = n" by (simp add: unat_hex split: if_splits)
qed

lemma byte_hex_inj: "byte_hex a = byte_hex b \<Longrightarrow> a = b"
proof -
  assume eq: "byte_hex a = byte_hex b"
  have "unat a < 256" "unat b < 256"
    using unsigned_less [of a, where ?'a = nat] unsigned_less [of b, where ?'a = nat]
    by simp_all
  then have "unat a div 16 < 16" "unat b div 16 < 16"
    by simp_all
  moreover have "unat a mod 16 < 16" "unat b mod 16 < 16" by simp_all
  ultimately have "unat a div 16 = unat b div 16" "unat a mod 16 = unat b mod 16"
    using eq hex_digit_inj by (auto simp: byte_hex_def)
  then have "unat a = unat b"
    by (metis div_mult_mod_eq)
  then show "a = b" by (simp add: word_eq_iff_unsigned [where ?'a = nat])
qed

lemma prefix_toString_hex: "prefix (toString_hex xs) (toString_hex ys) \<longleftrightarrow> prefix xs ys"
proof (induction xs arbitrary: ys)
  case Nil
  show ?case by (simp add: toString_hex_def)
next
  case (Cons x xs)
  show ?case
  proof (cases ys)
    case Nil
    then show ?thesis by (simp add: toString_hex_def byte_hex_def)
  next
    case (Cons y ys')
    have "prefix (byte_hex x @ toString_hex xs) (byte_hex y @ toString_hex ys')
            \<longleftrightarrow> byte_hex x = byte_hex y \<and> prefix (toString_hex xs) (toString_hex ys')"
      by (auto simp: byte_hex_def)
    with Cons Cons.IH [of ys'] show ?thesis
      using byte_hex_inj by (auto simp: toString_hex_def)
  qed
qed

lemma prefix_take: "length xs \<le> n \<Longrightarrow> prefix xs (take n ys) \<longleftrightarrow> prefix xs ys"
  by (metis prefix_def append_eq_conv_conj take_all_iff take_take min.absorb1 append_take_drop_id prefix_length_le length_take min.cobounded2 take_is_prefix prefix_order.order_trans)

lemma markers_hex:
  "magicMarkers = map (\<lambda>(sig, ext). (toString_hex sig, ext)) signatures"
  by (simp add: magicMarkers_def signatures_def toString_hex_def byte_hex_def hex_digit_def str_def)

lemma prefix_marker:
  "length sig \<le> 8 \<Longrightarrow> prefix (toString_hex sig) (toString_hex (take 8 buffer)) \<longleftrightarrow> prefix sig buffer"
  by (simp add: prefix_toString_hex prefix_take)

lemma getImgExt_bytes:
  "getImgExt buffer =
     (if prefix [0x42, 0x4D] buffer then Inr (str ''bmp'')
      else if prefix [0xFF, 0xD8, 0xFF] buffer then Inr (str ''jpg'')
      else if prefix [0x47, 0x49, 0x46, 0x38] buffer then Inr (str ''gif'')
      else if prefix [0x89, 0x50, 0x4E, 0x47, 0x0D, 0x0A, 0x1A, 0x0A] buffer then Inr (str ''png'')
      else if prefix [0x52, 0x49, 0x46, 0x46, 0x57, 0x45, 0x42, 0x50] buffer then Inr (str ''webp'')
      else Inl UnknownFormat)"
  unfolding getImgExt_def markers_hex signatures_def
  by (simp add: prefix_marker)

lemma getImgExt_unknown: "getImgExt buffer = Inl UnknownFormat \<longleftrightarrow> \<not> matches_signature buffer"
  by (simp add: getImgExt_bytes matches_signature_def signatures_def)

lemma getImgExt_png:
  "prefix [0x89, 0x50, 0x4E, 0x47, 0x0D, 0x0A, 0x1A, 0x0A] buffer \<Longrightarrow> getImgExt buffer = Inr (str ''png'')"
  by (auto simp: getImgExt_bytes prefix_def)

lemma getImgExt_jpg:
  "prefix [0xFF, 0xD8, 0xFF] buffer \<Longrightarrow> getImgExt buffer = Inr (str ''jpg'')"
  by (auto simp: getImgExt_bytes prefix_def)

text \<open>
  C4: a call with an id that is not archived yet fails with \<open>EmptyPayload\<close> when the
  payload has no bytes, and with \<open>UnknownFormat\<close> when the payload is not empty and
  starts with none of the signatures of bmp, jpg, gif, png and webp. A payload that
  starts with the bytes 89 50 4E 47 0D 0A 1A 0A is sniffed as png, one that starts with
  FF D8 FF as jpg.
\<close>

theorem archiveImage_payload_errors:
  assumes "id_key ident \<notin> archivedImages s"
  shows "(imgData = [] \<longrightarrow>
            archiveImage env ident details_ref imgData s =
              (Inl (EmptyPayload (effective_id env ident)), s)) \<and>
         (imgData \<noteq> [] \<and> \<not> matches_signature imgData \<longrightarrow>
            fst (archiveImage env ident details_ref imgData s) = Inl UnknownFormat) \<and>
         (prefix [0x89, 0x50, 0x4E, 0x47, 0x0D, 0x0A, 0x1A, 0x0A] imgData \<longrightarrow>
            getImgExt imgData = Inr (str ''png'')) \<and>
         (prefix [0xFF, 0xD8, 0xFF] imgData \<longrightarrow> getImgExt imgData = Inr (str ''jpg''))"
proof -
  have empty: "imgData = [] \<Longrightarrow>
      archiveImage env ident details_ref imgData s = (Inl (EmptyPayload (effective_id env ident)), s)"
    using assms by (simp add: archiveImage_def)
  have unknown: "imgData \<noteq> [] \<Longrightarrow> \<not> matches_signature imgData \<Longrightarrow>
      fst (archiveImage env ident details_ref imgData s) = Inl UnknownFormat"
  proof -
    assume ne: "imgData \<noteq> []" and nm: "\<not> matches_signature imgData"
    from nm have "getImgExt imgData = Inl UnknownFormat" by (simp add: getImgExt_unknown)
    with assms ne show ?thesis by (simp add: archiveImage_def Let_def)
  qed
  show ?thesis using empty unknown getImgExt_png getImgExt_jpg by blast
qed

theorem archiveImage_payload_errors_witness:
  "id_key (Some (str ''42'')) \<notin> archivedImages example_state \<and>
   archiveImage example_env (Some (str ''42'')) None [] example_state =
     (Inl (EmptyPayload (str ''42'')), example_state) \<and>
   fst (archiveImage example_env (Some (str ''42'')) None [0x00, 0x01, 0x02] example_state) =
     Inl UnknownFormat \<and>
   getImgExt example_png = Inr (str ''png'') \<and>
   getImgExt [0xFF, 0xD8, 0xFF, 0xE0] = Inr (str ''jpg'')"
proof -
  have nd: "id_key (Some (str ''42'')) \<notin> archivedImages example_state"
    by (simp add: example_state_def)
  have nm: "\<not> matches_signature [0x00, 0x01, 0x02]"
    by (simp add: matches_signature_def signatures_def)
  show ?thesis
    using nd nm
      archiveImage_payload_errors [OF nd, of "[]" example_env None]
      archiveImage_payload_errors [OF nd, of "[0x00, 0x01, 0x02]" example_env None]
      archiveImage_payload_errors [OF nd, of example_png example_env None]
      archiveImage_payload_errors [OF nd, of "[0xFF, 0xD8, 0xFF, 0xE0]" example_env None]
    by (simp add: example_png_def effective_id_def str_def)
qed

lemma ensureDirectory_frame:
  "ensureDirectory p s = Inr s' \<Longrightarrow>
     files s' = files s \<and> archivedImages s' = archivedImages s \<and> objects s' = objects s"
  by (auto simp: ensureDirectory_def Let_def split: if_splits)

lemma writeFileSync_frame:
  "writeFileSync p c s = Inr s' \<Longrightarrow>
     files s' = (files s)(p \<mapsto> c) \<and> archivedImages s' = archivedImages s \<and>
     objects s' = objects s"
  by (auto simp: writeFileSync_def split: if_splits)

lemma archiveImage_duplicate:
  "id_key ident \<in> archivedImages s \<Longrightarrow> archiveImage env ident details_ref imgData s = (Inr (), s)"
  by (simp add: archiveImage_def)

lemma fill_details_fields:
  "det_id (fill_details env i d) = Some i"
  "prompt (fill_details env i d) = Some (case prompt d of None \<Rightarrow> str ''[unknown prompt]'' | Some p \<Rightarrow> p)"
  "unixTime (fill_details env i d) = Some (case unixTime d of None \<Rightarrow> unix_seconds (date_now env) | Some t \<Rightarrow> t)"
  by (simp_all add: fill_details_def prompt_or_default_def unixTime_or_now_def)

text \<open>What a call that is not a duplicate and returns has done.\<close>

lemma archiveImage_returns:
  assumes nd: "id_key ident \<notin> archivedImages s"
    and ret: "archiveImage env ident details_ref imgData s = (Inr (), s')"
  shows "\<exists>ext. getImgExt imgData = Inr ext \<and> imgData \<noteq> [] \<and>
           (let d0 = (case details_ref of None \<Rightarrow> empty_details | Some r \<Rightarrow> objects s r);
                d = fill_details env (effective_id env ident) d0;
                img = imgPath env (effective_id env ident) (prompt_or_default d0)
                        (unixTime_or_now env d0) ext;
                rec = recPath env (effective_id env ident) (unixTime_or_now env d0)
            in objects s' = (case details_ref of None \<Rightarrow> objects s | Some r \<Rightarrow> (objects s)(r := d)) \<and>
               (if SKIP_RECORD env
                then files s' = (files s)(img \<mapsto> ImageData imgData) \<and>
                     archivedImages s' = archivedImages s
                else files s' = (files s)(img \<mapsto> ImageData imgData, rec \<mapsto> RecordJson d) \<and>
                     archivedImages s' = insert (effective_id env ident) (archivedImages s)))"
  using nd ret
  unfolding archiveImage_def Let_def
  apply (simp split: if_splits sum.splits option.splits)
  apply (auto dest!: ensureDirectory_frame writeFileSync_frame simp: fill_details_fields id_key_def)
  done

text \<open>
  C3: a call with an id of the index returns without an error and leaves the whole state
  as it is: no file is written, and the index, the disk and the caller's objects are
  unchanged. So after a call with a non-empty id has returned and recorded it, a second
  call with that id, whatever its payload and details, changes nothing; where the id was
  new, the disk then holds, beyond what it held before, the one artifact and the one
  record that the first call wrote.
\<close>

theorem archiveImage_idempotent:
  "(id_key ident \<in> archivedImages s \<longrightarrow>
      archiveImage env ident details_ref imgData s = (Inr (), s)) \<and>
   (i \<noteq> [] \<and> \<not> SKIP_RECORD env \<and>
    fst (archiveImage env (Some i) details_ref imgData s) = Inr () \<longrightarrow>
      archiveImage env' (Some i) details_ref' imgData'
          (snd (archiveImage env (Some i) details_ref imgData s)) =
        (Inr (), snd (archiveImage env (Some i) details_ref imgData s))) \<and>
   (i \<noteq> [] \<and> \<not> SKIP_RECORD env \<and> i \<notin> archivedImages s \<and>
    fst (archiveImage env (Some i) details_ref imgData s) = Inr () \<longrightarrow>
      (\<exists>ext p t d. files (snd (archiveImage env' (Some i) details_ref' imgData'
                   (snd (archiveImage env (Some i) details_ref imgData s)))) =
               (files s)(imgPath env i p t ext \<mapsto> ImageData imgData, recPath env i t \<mapsto> RecordJson d)))"
proof (intro conjI impI)
  assume "id_key ident \<in> archivedImages s"
  then show "archiveImage env ident details_ref imgData s = (Inr (), s)"
    by (rule archiveImage_duplicate)
next
  let ?s1 = "snd (archiveImage env (Some i) details_ref imgData s)"
  assume h: "i \<noteq> [] \<and> \<not> SKIP_RECORD env \<and>
    fst (archiveImage env (Some i) details_ref imgData s) = Inr ()"
  then have ret: "archiveImage env (Some i) details_ref imgData s = (Inr (), ?s1)"
    by (metis prod.collapse)
  have "i \<in> archivedImages ?s1"
  proof (cases "i \<in> archivedImages s")
    case True
    then show ?thesis by (simp add: archiveImage_def id_key_def)
  next
    case False
    then have "id_key (Some i) \<notin> archivedImages s" by (simp add: id_key_def)
    from archiveImage_returns [OF this ret] h show ?thesis
      by (auto simp: Let_def effective_id_def)
  qed
  then show "archiveImage env' (Some i) details_ref' imgData' ?s1 = (Inr (), ?s1)"
    by (simp add: archiveImage_duplicate id_key_def)
next
  let ?s1 = "snd (archiveImage env (Some i) details_ref imgData s)"
  assume h: "i \<noteq> [] \<and> \<not> SKIP_RECORD env \<and> i \<notin> archivedImages s \<and>
    fst (archiveImage env (Some i) details_ref imgData s) = Inr ()"
  then have ret: "archiveImage env (Some i) details_ref imgData s = (Inr (), ?s1)"
    by (metis prod.collapse)
  from h have nd: "id_key (Some i) \<notin> archivedImages s" by (simp add: id_key_def)
  from archiveImage_returns [OF nd ret] h
  have "i \<in> archivedImages ?s1" and
    fs: "\<exists>ext p t d. files ?s1 =
           (files s)(imgPath env i p t ext \<mapsto> ImageData imgData, recPath env i t \<mapsto> RecordJson d)"
    by (auto simp: Let_def effective_id_def)
  then have "archiveImage env' (Some i) details_ref' imgData' ?s1 = (Inr (), ?s1)"
    by (simp add: archiveImage_duplicate id_key_def)
  with fs show "\<exists>ext p t d. files (snd (archiveImage env' (Some i) details_ref' imgData' ?s1)) =
      (files s)(imgPath env i p t ext \<mapsto> ImageData imgData, recPath env i t \<mapsto> RecordJson d)"
    by simp
qed

lemma example_returns:
  "fst (archiveImage example_env (Some (str ''42'')) None example_png example_state) = Inr ()"
  by code_simp

theorem archiveImage_idempotent_witness:
  "id_key (Some (str ''42'')) \<in> archivedImages archived_state \<and>
   archiveImage example_env (Some (str ''42'')) None example_png archived_state =
     (Inr (), archived_state) \<and>
   str ''42'' \<noteq> [] \<and> \<not> SKIP_RECORD example_env \<and> str ''42'' \<notin> archivedImages example_state \<and>
   fst (archiveImage example_env (Some (str ''42'')) None example_png example_state) = Inr () \<and>
   archiveImage example_env (Some (str ''42'')) (Some 0) []
       (snd (archiveImage example_env (Some (str ''42'')) None example_png example_state)) =
     (Inr (), snd (archiveImage example_env (Some (str ''42'')) None example_png example_state)) \<and>
   (\<exists>ext p t d. files (snd (archiveImage example_env (Some (str ''42'')) (Some 0) []
        (snd (archiveImage example_env (Some (str ''42'')) None example_png example_state)))) =
      (files example_state)(imgPath example_env (str ''42'') p t ext \<mapsto> ImageData example_png,
                            recPath example_env (str ''42'') t \<mapsto> RecordJson d))"
proof -
  have a: "id_key (Some (str ''42'')) \<in> archivedImages archived_state"
    by (simp add: archived_state_def id_key_def)
  have b: "str ''42'' \<noteq> []" "\<not> SKIP_RECORD example_env" "str ''42'' \<notin> archivedImages example_state"
    by (simp_all add: str_def example_env_def example_state_def)
  show ?thesis
    using a b example_returns
      archiveImage_idempotent [of "Some (str ''42'')" archived_state example_env None example_png
        "str ''42''" example_env "Some 0" "[]"]
      archiveImage_idempotent [of "Some (str ''42'')" example_state example_env None example_png
        "str ''42''" example_env "Some 0" "[]"]
    by blast
qed

text \<open>
  C9: the function assigns to the caller's \<open>details\<close> object itself. After a call that is
  not a duplicate has returned, the object at the caller's reference holds the id the
  call worked with (the generated one when none was given), the prompt it had or else
  the placeholder, and the time it had or else the time of the call in seconds; its other
  fields and every other object are as before.
\<close>

theorem archiveImage_fills_details:
  assumes "id_key ident \<notin> archivedImages s"
    and "fst (archiveImage env ident (Some r) imgData s) = Inr ()"
  shows "det_id (objects (snd (archiveImage env ident (Some r) imgData s)) r) =
           Some (effective_id env ident) \<and>
         prompt (objects (snd (archiveImage env ident (Some r) imgData s)) r) =
           Some (case prompt (objects s r) of None \<Rightarrow> str ''[unknown prompt]'' | Some p \<Rightarrow> p) \<and>
         unixTime (objects (snd (archiveImage env ident (Some r) imgData s)) r) =
           Some (case unixTime (objects s r) of None \<Rightarrow> unix_seconds (date_now env) | Some t \<Rightarrow> t) \<and>
         details.more (objects (snd (archiveImage env ident (Some r) imgData s)) r) =
           details.more (objects s r) \<and>
         (\<forall>r'. r' \<noteq> r \<longrightarrow>
            objects (snd (archiveImage env ident (Some r) imgData s)) r' = objects s r')"
proof -
  let ?s1 = "snd (archiveImage env ident (Some r) imgData s)"
  from assms(2) have ret: "archiveImage env ident (Some r) imgData s = (Inr (), ?s1)"
    by (metis prod.collapse)
  from archiveImage_returns [OF assms(1) ret]
  have "objects ?s1 = (objects s)(r := fill_details env (effective_id env ident) (objects s r))"
    by (auto simp: Let_def)
  then show ?thesis
    by (simp add: fill_details_fields fill_details_def prompt_or_default_def
        unixTime_or_now_def)
qed

lemma example_returns_ref:
  "fst (archiveImage example_env None (Some 0) example_png example_state) = Inr ()"
  by code_simp

theorem archiveImage_fills_details_witness:
  "id_key None \<notin> archivedImages example_state \<and>
   fst (archiveImage example_env None (Some 0) example_png example_state) = Inr () \<and>
   det_id (objects (snd (archiveImage example_env None (Some 0) example_png example_state)) 0) =
     Some (str ''uuid-1'') \<and>
   prompt (objects (snd (archiveImage example_env None (Some 0) example_png example_state)) 0) =
     Some (str ''[unknown prompt]'') \<and>
   unixTime (objects (snd (archiveImage example_env None (Some 0) example_png example_state)) 0) =
     Some 1709640000"
  using archiveImage_fills_details [of None example_state example_env 0 example_png]
    example_returns_ref
  by (simp add: example_env_def example_state_def effective_id_def empty_details_def
      unix_seconds_def)

section \<open>Properties of wildcardToRegex\<close>

lemma replace_each_append:
  "replace_each P f (xs @ ys) = replace_each P f xs @ replace_each P f ys"
  by (simp add: replace_each_def)

lemma wildcard_pieces:
  "replace_each (\<lambda>c. c = cu CHR ''?'') (\<lambda>c. str ''.'')
     (replace_each (\<lambda>c. c = cu CHR ''*'') (\<lambda>c. str ''.*'')
       (replace_each regex_special (\<lambda>c. [0x5C, c]) p)) = concat (map wild_piece p)"
proof (induction p)
  case Nil
  show ?case by (simp add: replace_each_def)
next
  case (Cons c p)
  have "replace_each regex_special (\<lambda>c. [0x5C, c]) (c # p) =
          (if regex_special c then [0x5C, c] else [c]) @ replace_each regex_special (\<lambda>c. [0x5C, c]) p"
    by (simp add: replace_each_def)
  moreover have "replace_each (\<lambda>c. c = cu CHR ''?'') (\<lambda>c. str ''.'')
     (replace_each (\<lambda>c. c = cu CHR ''*'') (\<lambda>c. str ''.*'')
        (if regex_special c then [0x5C, c] else [c])) = wild_piece c"
    by (auto simp: replace_each_def wild_piece_def regex_special_def str_def)
  ultimately show ?case
    using Cons.IH by (simp add: replace_each_append)
qed

lemma wildcardToRegex_source_pieces:
  "wildcardToRegex_source p = str ''^'' @ concat (map wild_piece p) @ str ''$''"
  by (simp only: wildcardToRegex_source_def Let_def wildcard_pieces)

lemma pieces_head:
  "\<exists>h t. concat (map wild_piece p) @ str ''$'' = h # t \<and> h \<noteq> cu CHR ''*''"
  by (cases p) (auto simp: wild_piece_def str_def)

lemma starred_no_star: "h \<noteq> cu CHR ''*'' \<Longrightarrow> starred a (h # t) = Atom a"
  by (simp add: starred_def)

lemma behind_no_star: "h \<noteq> cu CHR ''*'' \<Longrightarrow> behind_star (h # t) = h # t"
  by (simp add: behind_star_def)

lemma special_is_syntax: "regex_special c \<Longrightarrow> syntax_char c"
  by (auto simp: regex_special_def syntax_char_def str_def)

lemma syntax_char_cases:
  "syntax_char c \<longleftrightarrow> regex_special c \<or> c = cu CHR ''*'' \<or> c = cu CHR ''?''"
  by (auto simp: regex_special_def syntax_char_def str_def)

lemma parse_pieces:
  "parse_regex (concat (map wild_piece p) @ str ''$'') = Some (map wild_term p @ [EOL])"
proof (induction p)
  case Nil
  show ?case by (simp add: str_def)
next
  case (Cons c p)
  obtain h t where rest: "concat (map wild_piece p) @ str ''$'' = h # t" and h: "h \<noteq> cu CHR ''*''"
    using pieces_head by blast
  have IH: "parse_regex (h # t) = Some (map wild_term p @ [EOL])"
    using Cons.IH rest by simp
  consider (special) "regex_special c" | (star) "c = cu CHR ''*''" | (quest) "c = cu CHR ''?''"
    | (plain) "\<not> syntax_char c"
    using syntax_char_cases by blast
  then have "parse_regex (wild_piece c @ h # t) = Some (wild_term c # map wild_term p @ [EOL])"
  proof cases
    case special
    then have ne: "c \<noteq> cu CHR ''*''" "c \<noteq> cu CHR ''?''"
      by (auto simp: regex_special_def str_def)
    have "parse_regex (0x5C # c # h # t) =
        map_option (Cons (starred (Lit c) (h # t))) (parse_regex (behind_star (h # t)))"
      using special_is_syntax [OF special] by simp
    with special ne h IH show ?thesis
      by (simp add: wild_piece_def wild_term_def starred_no_star behind_no_star)
  next
    case star
    then have "wild_piece c = str ''.*''" "wild_term c = Star Dot"
      by (simp_all add: wild_piece_def wild_term_def regex_special_def str_def)
    then show ?thesis using IH
      by (simp add: str_def starred_def behind_star_def)
  next
    case quest
    then have "wild_piece c = str ''.''" "wild_term c = Atom Dot"
      by (simp_all add: wild_piece_def wild_term_def regex_special_def str_def)
    then show ?thesis using IH h
      by (simp add: str_def starred_no_star behind_no_star)
  next
    case plain
    then have ns: "\<not> regex_special c" "c \<noteq> cu CHR ''*''" "c \<noteq> cu CHR ''?''"
      using syntax_char_cases by auto
    from plain have "c \<noteq> cu CHR ''^''" "c \<noteq> cu CHR ''$''" "c \<noteq> 0x5C" "c \<noteq> cu CHR ''.''"
      by (auto simp: syntax_char_def str_def)
    with plain ns h IH show ?thesis
      by (simp add: wild_piece_def wild_term_def starred_no_star behind_no_star)
  qed
  with rest show ?case by simp
qed

text \<open>The constructor accepts every pattern the function builds: one term for each code unit.\<close>

lemma wildcardToRegex_terms:
  "wildcardToRegex p = Inr (BOL # map wild_term p @ [EOL])"
proof -
  have "parse_regex (str ''^'' @ concat (map wild_piece p) @ str ''$'') =
      map_option (Cons BOL) (parse_regex (concat (map wild_piece p) @ str ''$''))"
    by (simp add: str_def)
  then have "parse_regex (wildcardToRegex_source p) = Some (BOL # map wild_term p @ [EOL])"
    by (simp only: wildcardToRegex_source_pieces parse_pieces option.map)
  then show ?thesis
    by (simp add: wildcardToRegex_def RegExp_new_def)
qed

lemma re_search_BOL: "re_search (BOL # ts) False s = False"
  by (induction s) simp_all

lemma re_test_BOL: "re_test (BOL # ts) s = re_match ts True s"
  by (cases s) (simp_all add: re_test_def re_search_BOL)

lemma re_match_literal:
  "re_match (map (\<lambda>c. Atom (Lit c)) lit @ ts) b s \<longleftrightarrow>
     prefix lit s \<and> re_match ts (b \<and> lit = []) (drop (length lit) s)"
proof (induction lit arbitrary: b s)
  case Nil
  show ?case by simp
next
  case (Cons c lit)
  show ?case
  proof (cases s)
    case Nil
    then show ?thesis by simp
  next
    case (Cons x xs)
    then show ?thesis
      using Cons.IH [of False xs] by (auto simp: atom_matches_def)
  qed
qed

lemma re_match_dot_star:
  "re_match [Star Dot, EOL] b t \<longleftrightarrow> list_all (\<lambda>c. \<not> line_terminator c) t"
  by (induction t arbitrary: b) (auto simp: atom_matches_def)

lemma wild_term_plain:
  "list_all (\<lambda>c. c \<noteq> cu CHR ''*'' \<and> c \<noteq> cu CHR ''?'') s \<Longrightarrow>
     map wild_term s = map (\<lambda>c. Atom (Lit c)) s"
  by (induction s) (simp_all add: wild_term_def)

lemma wildcard_literal_star:
  assumes "list_all (\<lambda>c. c \<noteq> cu CHR ''*'' \<and> c \<noteq> cu CHR ''?'') s"
  shows "wildcard_test (s @ str ''*'') x =
           Inr (prefix s x \<and> list_all (\<lambda>c. \<not> line_terminator c) (drop (length s) x))"
proof -
  have "map wild_term (s @ str ''*'') = map (\<lambda>c. Atom (Lit c)) s @ [Star Dot]"
    using wild_term_plain [OF assms] by (simp add: str_def wild_term_def)
  then have "wildcardToRegex (s @ str ''*'') =
      Inr (BOL # map (\<lambda>c. Atom (Lit c)) s @ [Star Dot, EOL])"
    by (simp add: wildcardToRegex_terms)
  then show ?thesis
    by (simp add: wildcard_test_def re_test_BOL re_match_literal re_match_dot_star)
qed

text \<open>
  C7, as the code has it: for a string \<open>s\<close> without metacharacters, the matcher compiled
  from \<open>s\<close> followed by \<open>*\<close> matches exactly the strings that are \<open>s\<close> followed by code
  units none of which is a line terminator (the dot of a regular expression does not
  match U+000A, U+000D, U+2028 and U+2029). The matcher compiled from \<open>a?c\<close> matches
  \<open>abc\<close>, and neither \<open>ac\<close> nor \<open>abbc\<close>.
\<close>

theorem wildcard_prefix_matcher:
  assumes "list_all (\<lambda>c. \<not> metachar c) s"
  shows "wildcard_test (s @ str ''*'') x =
           Inr (prefix s x \<and> list_all (\<lambda>c. \<not> line_terminator c) (drop (length s) x)) \<and>
         wildcard_test (str ''a?c'') (str ''abc'') = Inr True \<and>
         wildcard_test (str ''a?c'') (str ''ac'') = Inr False \<and>
         wildcard_test (str ''a?c'') (str ''abbc'') = Inr False"
proof -
  from assms have "list_all (\<lambda>c. c \<noteq> cu CHR ''*'' \<and> c \<noteq> cu CHR ''?'') s"
    by (induction s) (simp_all add: metachar_def)
  then have "wildcard_test (s @ str ''*'') x =
      Inr (prefix s x \<and> list_all (\<lambda>c. \<not> line_terminator c) (drop (length s) x))"
    by (rule wildcard_literal_star)
  moreover have "wildcard_test (str ''a?c'') (str ''abc'') = Inr True"
    by (simp add: wildcard_test_def wildcardToRegex_terms re_test_BOL wild_term_def str_def
        atom_matches_def line_terminator_def)
  moreover have "wildcard_test (str ''a?c'') (str ''ac'') = Inr False"
    by (simp add: wildcard_test_def wildcardToRegex_terms re_test_BOL wild_term_def str_def
        atom_matches_def line_terminator_def)
  moreover have "wildcard_test (str ''a?c'') (str ''abbc'') = Inr False"
    by (simp add: wildcard_test_def wildcardToRegex_terms re_test_BOL wild_term_def str_def
        atom_matches_def line_terminator_def)
  ultimately show ?thesis by simp
qed

theorem wildcard_prefix_matcher_witness:
  "list_all (\<lambda>c. \<not> metachar c) (str ''ab'') \<and>
   wildcard_test (str ''ab'' @ str ''*'') (str ''abc/d'') = Inr True \<and>
   wildcard_test (str ''ab'' @ str ''*'') (str ''ab'') = Inr True \<and>
   wildcard_test (str ''ab'' @ str ''*'') (str ''xab'') = Inr False"
proof -
  have h: "list_all (\<lambda>c. \<not> metachar c) (str ''ab'')"
    by (simp add: metachar_def regex_special_def str_def)
  show ?thesis
    using h wildcard_prefix_matcher [OF h, of "str ''abc/d''"]
      wildcard_prefix_matcher [OF h, of "str ''ab''"]
      wildcard_prefix_matcher [OF h, of "str ''xab''"]
    by (simp add: str_def line_terminator_def)
qed

text \<open>
  C7 as stated fails: \<open>a\<close> is a prefix of the string made of \<open>a\<close> and a line feed, and
  the matcher compiled from \<open>a*\<close> does not match that string.
\<close>

theorem wildcard_prefix_line_terminator:
  "list_all (\<lambda>c. \<not> metachar c) (str ''a'') \<and>
   prefix (str ''a'') (str ''a'' @ [0x0A]) \<and>
   wildcard_test (str ''a'' @ str ''*'') (str ''a'' @ [0x0A]) = Inr False"
  by (simp add: metachar_def regex_special_def str_def wildcard_test_def wildcardToRegex_def
      wildcardToRegex_source_def RegExp_new_def replace_each_def starred_def behind_star_def
      syntax_char_def re_test_def atom_matches_def line_terminator_def)

section \<open>Properties of the interception\<close>

text \<open>
  C6: when exactly one of \<open>catchResponses\<close> and \<open>responseReceivedHandler\<close> is supplied,
  \<open>initializeIntercept\<close> rejects with the configuration error and has done nothing before
  it, no attempt to connect either; when both or neither are supplied it does not reject
  with that error and goes on to connect.
\<close>

theorem initializeIntercept_config_check:
  "((catchResponses cfg \<noteq> None) \<noteq> responseReceivedHandler cfg \<longrightarrow>
      initializeIntercept cfg env = (InitRejected ConfigError, [])) \<and>
   ((catchResponses cfg \<noteq> None) = responseReceivedHandler cfg \<longrightarrow>
      fst (initializeIntercept cfg env) \<noteq> InitRejected ConfigError \<and>
      snd (initializeIntercept cfg env) \<noteq> [])"
  by (auto simp: initializeIntercept_def Let_def split: sum.splits option.splits)

theorem initializeIntercept_config_check_witness:
  "(catchResponses rules_only_config \<noteq> None) \<noteq> responseReceivedHandler rules_only_config \<and>
   initializeIntercept rules_only_config example_init = (InitRejected ConfigError, []) \<and>
   (catchResponses handler_only_config \<noteq> None) \<noteq> responseReceivedHandler handler_only_config \<and>
   initializeIntercept handler_only_config example_init = (InitRejected ConfigError, []) \<and>
   (catchResponses bare_config \<noteq> None) = responseReceivedHandler bare_config \<and>
   fst (initializeIntercept bare_config example_init) \<noteq> InitRejected ConfigError \<and>
   snd (initializeIntercept bare_config example_init) \<noteq> [] \<and>
   (catchResponses example_config \<noteq> None) = responseReceivedHandler example_config \<and>
   fst (initializeIntercept example_config example_init) \<noteq> InitRejected ConfigError \<and>
   snd (initializeIntercept example_config example_init) \<noteq> []"
proof -
  have one: "(catchResponses rules_only_config \<noteq> None) \<noteq> responseReceivedHandler rules_only_config"
    "(catchResponses handler_only_config \<noteq> None) \<noteq> responseReceivedHandler handler_only_config"
    by (simp_all add: rules_only_config_def handler_only_config_def)
  have both: "(catchResponses bare_config \<noteq> None) = responseReceivedHandler bare_config"
    "(catchResponses example_config \<noteq> None) = responseReceivedHandler example_config"
    by (simp_all add: bare_config_def example_config_def)
  show ?thesis
    using one both
      initializeIntercept_config_check [of rules_only_config example_init]
      initializeIntercept_config_check [of handler_only_config example_init]
      initializeIntercept_config_check [of bare_config example_init]
      initializeIntercept_config_check [of example_config example_init]
    by blast
qed

lemma evaluate_interest_absent:
  "catchResponses cfg = None \<Longrightarrow> evaluate_interest cfg ti cache = (Inl TypeError, cache)"
  by (simp add: evaluate_interest_def)

lemma inspect_absent:
  "catchResponses cfg = None \<Longrightarrow> inspectTargetOrNot cfg env ti st = (Inl TypeError, [], st)"
  by (simp add: inspectTargetOrNot_def evaluate_interest_absent)

lemma on_requestWillBeSent_frame:
  "sessions (snd (on_requestWillBeSent session l req rid st)) = sessions st \<and>
   listeners (snd (on_requestWillBeSent session l req rid st)) = listeners st"
  by (simp add: on_requestWillBeSent_def split: prod.split sum.split)

lemma on_responseReceived_frame:
  "sessions (snd (on_responseReceived resp rid st)) = sessions st \<and>
   listeners (snd (on_responseReceived resp rid st)) = listeners st"
  by (simp add: on_responseReceived_def split: option.split)

lemma on_loadingFinished_frame:
  "sessions (snd (on_loadingFinished cfg rid st)) = sessions st \<and>
   listeners (snd (on_loadingFinished cfg rid st)) = listeners st"
  by (simp add: on_loadingFinished_def split: option.split)

lemma on_requestPaused_frame:
  "sessions (snd (snd (on_requestPaused cfg session l args env st))) = sessions st \<and>
   listeners (snd (snd (on_requestPaused cfg session l args env st))) = listeners st"
  by (simp add: on_requestPaused_def queue_delete_def Let_def
      split: prod.split try_result.split option.split)

lemma step_absent:
  assumes "catchResponses cfg = None"
  shows "(sessions st = Map.empty \<longrightarrow> sessions (snd (step cfg ev st)) = Map.empty) \<and>
         (listeners st = Map.empty \<longrightarrow>
            listeners (snd (step cfg ev st)) = Map.empty \<and>
            \<not> list_ex binds_session (fst (step cfg ev st)))"
proof (cases ev)
  case (TargetEvent ti env)
  then show ?thesis using assms by (simp add: inspect_absent binds_session_def)
next
  case (SessionDetached tid)
  then show ?thesis by simp
next
  case (RequestWillBeSent session req rid)
  then show ?thesis by (simp add: on_requestWillBeSent_frame split: option.split)
next
  case (ResponseReceived session resp rid)
  then show ?thesis by (simp add: on_responseReceived_frame split: option.split)
next
  case (LoadingFinished session rid)
  then show ?thesis by (simp add: on_loadingFinished_frame split: option.split)
next
  case (RequestPaused session args env)
  then show ?thesis by (simp add: on_requestPaused_frame split: option.split)
qed

lemma run_absent:
  assumes "catchResponses cfg = None"
  shows "sessions st = Map.empty \<Longrightarrow> listeners st = Map.empty \<Longrightarrow>
         sessions (snd (run cfg evs st)) = Map.empty \<and>
         \<not> list_ex binds_session (fst (run cfg evs st))"
proof (induction evs arbitrary: st)
  case Nil
  then show ?case by simp
next
  case (Cons ev evs)
  from step_absent [OF assms, of st ev] Cons.prems
  have s: "sessions (snd (step cfg ev st)) = Map.empty"
    and l: "listeners (snd (step cfg ev st)) = Map.empty"
    and b: "\<not> list_ex binds_session (fst (step cfg ev st))"
    by simp_all
  from Cons.IH [OF s l] b show ?case by simp
qed

text \<open>
  C10: with neither rules nor a handler supplied, which the check of the configuration
  accepts, every target notification makes \<open>inspectTargetOrNot\<close> throw a \<open>TypeError\<close> at the
  loop over the absent rules, with the state as it was; so whatever events come, no
  target is ever bound to a session.
\<close>

theorem absent_rules_never_bind:
  assumes "catchResponses cfg = None" and "\<not> responseReceivedHandler cfg"
  shows "fst (initializeIntercept cfg ienv) \<noteq> InitRejected ConfigError \<and>
         inspectTargetOrNot cfg env ti st = (Inl TypeError, [], st) \<and>
         step cfg (TargetEvent ti env) st = ([Uncaught TypeError], st) \<and>
         sessions (snd (run cfg evs initial_state)) = Map.empty \<and>
         \<not> list_ex binds_session (fst (run cfg evs initial_state))"
proof -
  have "fst (initializeIntercept cfg ienv) \<noteq> InitRejected ConfigError"
    using assms by (auto simp: initializeIntercept_def Let_def split: sum.splits option.splits)
  moreover have "sessions (snd (run cfg evs initial_state)) = Map.empty \<and>
      \<not> list_ex binds_session (fst (run cfg evs initial_state))"
    by (rule run_absent [OF assms(1)]) (simp_all add: initial_state_def)
  ultimately show ?thesis
    using assms(1) by (simp add: inspect_absent)
qed

theorem absent_rules_never_bind_witness:
  "catchResponses bare_config = None \<and> \<not> responseReceivedHandler bare_config \<and>
   fst (initializeIntercept bare_config example_init) \<noteq> InitRejected ConfigError \<and>
   step bare_config (TargetEvent (page ''t'' ''ab'') (binds_as 1)) initial_state =
     ([Uncaught TypeError], initial_state) \<and>
   sessions (snd (run bare_config observed_run initial_state)) = Map.empty \<and>
   \<not> list_ex binds_session (fst (run bare_config observed_run initial_state))"
proof -
  have h: "catchResponses bare_config = None" "\<not> responseReceivedHandler bare_config"
    by (simp_all add: bare_config_def)
  show ?thesis
    using h absent_rules_never_bind [OF h, of example_init "binds_as 1" "page ''t'' ''ab''"
        initial_state observed_run]
    by blast
qed

lemma paused_stage_result:
  "paused_handler env \<noteq> Pending \<Longrightarrow>
   snd (paused_stage cfg l args env) =
     Completed (listener_shouldInspect l AND shouldInspectBy_targetHandler \<noteq> 0 \<and>
                requestPausedHandler cfg \<and> paused_handler env = Returns True)"
  by (cases "paused_handler env") (auto simp: paused_stage_def)

lemma paused_stage_effects:
  "ContinueRequest session rid \<notin> set (fst (paused_stage cfg l args env))"
  by (simp add: paused_stage_def split: outcome.split)

lemma try_block_result:
  assumes "response_handler env \<noteq> Pending" "paused_handler env \<noteq> Pending"
  shows "snd (try_block cfg session l args env) = Completed (doNotContinue_signalled cfg l env)"
  using assms
  by (cases "response_handler env")
    (auto simp: try_block_def doNotContinue_signalled_def paused_stage_result Let_def)

lemma try_block_effects:
  "ContinueRequest session rid \<notin> set (fst (try_block cfg session l args env))"
  by (auto simp: try_block_def Let_def paused_stage_effects split: outcome.split)

lemma on_requestPaused_never_rejects:
  "fst (on_requestPaused cfg session l args env st) \<noteq> Some (Inl e)"
  by (simp add: on_requestPaused_def Let_def split: prod.split try_result.split)

lemma on_requestPaused_settled:
  assumes "response_handler env \<noteq> Pending" "paused_handler env \<noteq> Pending"
  shows "fst (on_requestPaused cfg session l args env st) = Some (Inr ()) \<and>
         fst (snd (on_requestPaused cfg session l args env st)) =
           fst (try_block cfg session l args env) @
           finally_block session args env (doNotContinue_signalled cfg l env)"
  using try_block_result [OF assms, of cfg session l args]
  by (cases "try_block cfg session l args env") (simp add: on_requestPaused_def Let_def)

text \<open>
  C5: when the handlers that are called settle (return or throw), the handler of a paused
  request resolves, and it issues the continue-request for the request unless the
  raw-pause handler was called and returned the signal not to continue. In particular an
  error thrown by the response-received handler or by the raw-pause handler is caught and
  logged and the continue-request is issued; an error of the continue-request itself is
  logged and the handler still resolves.
\<close>

theorem requestPaused_continues:
  assumes "response_handler env \<noteq> Pending" "paused_handler env \<noteq> Pending"
  shows
    "fst (on_requestPaused cfg session l args env st) = Some (Inr ()) \<and>
     (ContinueRequest session (paused_requestId args)
        \<in> set (fst (snd (on_requestPaused cfg session l args env st)))
      \<longleftrightarrow> \<not> doNotContinue_signalled cfg l env) \<and>
     (listener_shouldInspect l AND shouldInspectBy_responseCatcher \<noteq> 0 \<and>
      responseReceivedHandler cfg \<and> response_handler env = Throws e \<longrightarrow>
        Debug e \<in> set (fst (snd (on_requestPaused cfg session l args env st))) \<and>
        ContinueRequest session (paused_requestId args)
          \<in> set (fst (snd (on_requestPaused cfg session l args env st)))) \<and>
     ((listener_shouldInspect l AND shouldInspectBy_responseCatcher = 0 \<or>
       responseReceivedHandler cfg \<and> response_handler env = Returns ()) \<and>
      listener_shouldInspect l AND shouldInspectBy_targetHandler \<noteq> 0 \<and>
      requestPausedHandler cfg \<and> paused_handler env = Throws e \<longrightarrow>
        Debug e \<in> set (fst (snd (on_requestPaused cfg session l args env st))) \<and>
        ContinueRequest session (paused_requestId args)
          \<in> set (fst (snd (on_requestPaused cfg session l args env st)))) \<and>
     (\<not> doNotContinue_signalled cfg l env \<and> continue_error env = Some e' \<longrightarrow>
        Debug e' \<in> set (fst (snd (on_requestPaused cfg session l args env st))))"
proof -
  note settled = on_requestPaused_settled [OF assms, of cfg session l args st]
  have cont: "ContinueRequest session (paused_requestId args)
        \<in> set (fst (snd (on_requestPaused cfg session l args env st)))
      \<longleftrightarrow> \<not> doNotContinue_signalled cfg l env"
    using settled try_block_effects [of session "paused_requestId args" cfg l args env]
    by (auto simp: finally_block_def)
  have thrown1: "listener_shouldInspect l AND shouldInspectBy_responseCatcher \<noteq> 0 \<and>
      responseReceivedHandler cfg \<and> response_handler env = Throws e \<longrightarrow>
        Debug e \<in> set (fst (snd (on_requestPaused cfg session l args env st))) \<and>
        \<not> doNotContinue_signalled cfg l env"
    using settled by (auto simp: try_block_def Let_def doNotContinue_signalled_def)
  have thrown2: "(listener_shouldInspect l AND shouldInspectBy_responseCatcher = 0 \<or>
       responseReceivedHandler cfg \<and> response_handler env = Returns ()) \<and>
      listener_shouldInspect l AND shouldInspectBy_targetHandler \<noteq> 0 \<and>
      requestPausedHandler cfg \<and> paused_handler env = Throws e \<longrightarrow>
        Debug e \<in> set (fst (snd (on_requestPaused cfg session l args env st))) \<and>
        \<not> doNotContinue_signalled cfg l env"
    using settled
    by (auto simp: try_block_def paused_stage_def Let_def doNotContinue_signalled_def)
  have logged: "\<not> doNotContinue_signalled cfg l env \<and> continue_error env = Some e' \<longrightarrow>
        Debug e' \<in> set (fst (snd (on_requestPaused cfg session l args env st)))"
    using settled by (auto simp: finally_block_def)
  show ?thesis
    using settled cont thrown1 thrown2 logged by blast
qed

theorem requestPaused_continues_witness:
  "response_handler handler_throws \<noteq> Pending \<and> paused_handler handler_throws \<noteq> Pending \<and>
   fst (on_requestPaused both_handlers_config 1 (example_listener\<lparr>listener_shouldInspect := 3\<rparr>)
          example_paused handler_throws initial_state) = Some (Inr ()) \<and>
   Debug (Thrown 7) \<in> set (fst (snd (on_requestPaused both_handlers_config 1
          (example_listener\<lparr>listener_shouldInspect := 3\<rparr>) example_paused handler_throws
          initial_state))) \<and>
   ContinueRequest 1 (str ''f'') \<in> set (fst (snd (on_requestPaused both_handlers_config 1
          (example_listener\<lparr>listener_shouldInspect := 3\<rparr>) example_paused handler_throws
          initial_state))) \<and>
   Debug (Thrown 9) \<in> set (fst (snd (on_requestPaused both_handlers_config 1
          (example_listener\<lparr>listener_shouldInspect := 3\<rparr>) example_paused handler_throws
          initial_state))) \<and>
   Debug (Thrown 8) \<in> set (fst (snd (on_requestPaused both_handlers_config 1
          (example_listener\<lparr>listener_shouldInspect := 3\<rparr>) example_paused paused_throws
          initial_state))) \<and>
   ContinueRequest 1 (str ''f'') \<in> set (fst (snd (on_requestPaused both_handlers_config 1
          (example_listener\<lparr>listener_shouldInspect := 3\<rparr>) example_paused paused_throws
          initial_state))) \<and>
   ContinueRequest 1 (str ''f'') \<notin> set (fst (snd (on_requestPaused both_handlers_config 1
          (example_listener\<lparr>listener_shouldInspect := 3\<rparr>) example_paused handlers_return
          initial_state)))"
proof -
  let ?l = "example_listener\<lparr>listener_shouldInspect := 3\<rparr>"
  have h: "response_handler handler_throws \<noteq> Pending" "paused_handler handler_throws \<noteq> Pending"
    "response_handler handlers_return \<noteq> Pending" "paused_handler handlers_return \<noteq> Pending"
    "response_handler paused_throws \<noteq> Pending" "paused_handler paused_throws \<noteq> Pending"
    by (simp_all add: handler_throws_def handlers_return_def paused_throws_def)
  have s1: "\<not> doNotContinue_signalled both_handlers_config ?l handler_throws"
    by (simp add: doNotContinue_signalled_def handler_throws_def
        shouldInspectBy_responseCatcher_def)
  have s2: "doNotContinue_signalled both_handlers_config ?l handlers_return"
    by (simp add: doNotContinue_signalled_def handlers_return_def both_handlers_config_def
        example_config_def shouldInspectBy_targetHandler_def shouldInspectBy_responseCatcher_def)
  have c: "listener_shouldInspect ?l AND shouldInspectBy_responseCatcher \<noteq> 0"
      "listener_shouldInspect ?l AND shouldInspectBy_targetHandler \<noteq> 0"
      "responseReceivedHandler both_handlers_config"
      "requestPausedHandler both_handlers_config"
      "response_handler handler_throws = Throws (Thrown 7)"
      "continue_error handler_throws = Some (Thrown 9)"
      "response_handler paused_throws = Returns ()"
      "paused_handler paused_throws = Throws (Thrown 8)"
    by (simp_all add: shouldInspectBy_responseCatcher_def shouldInspectBy_targetHandler_def
        both_handlers_config_def example_config_def handler_throws_def paused_throws_def)
  have r: "paused_requestId example_paused = str ''f''"
    by (simp add: example_paused_def)
  show ?thesis
    using h s1 s2 c
      requestPaused_continues [OF h(1,2), of both_handlers_config 1 ?l example_paused
        initial_state "Thrown 7" "Thrown 9"]
      requestPaused_continues [OF h(5,6), of both_handlers_config 1 ?l example_paused
        initial_state "Thrown 8"]
      requestPaused_continues [OF h(3,4), of both_handlers_config 1 ?l example_paused
        initial_state]
    unfolding r by blast
qed

lemma bind_target_queue:
  "networkResponseCatchQueue (snd (bind_target env ti i st)) = networkResponseCatchQueue st"
  by (simp add: bind_target_def Let_def split: sum.split option.split)

lemma bind_failed_reports: "\<not> list_ex (network_report_for k) (bind_failed i e)"
  by (simp add: bind_failed_def network_report_for_def)

lemma bind_target_reports:
  "\<not> list_ex (network_report_for k) (fst (bind_target env ti i st))"
  by (simp add: bind_target_def Let_def bind_failed_reports network_report_for_def
      split: sum.split option.split)

lemma inspect_queue:
  "networkResponseCatchQueue (snd (snd (inspectTargetOrNot cfg env ti st))) =
     networkResponseCatchQueue st"
  by (simp add: inspectTargetOrNot_def Let_def bind_target_queue
      split: prod.split sum.split option.split)

lemma inspect_reports:
  "\<not> list_ex (network_report_for k) (fst (snd (inspectTargetOrNot cfg env ti st)))"
  by (simp add: inspectTargetOrNot_def Let_def bind_target_reports network_report_for_def
      split: prod.split sum.split option.split)

lemma paused_stage_reports:
  "\<not> list_ex (network_report_for k) (fst (paused_stage cfg l args env))"
  by (simp add: paused_stage_def network_report_for_def split: outcome.split)

lemma try_block_reports:
  "\<not> list_ex (network_report_for k) (fst (try_block cfg session l args env))"
  by (simp add: try_block_def Let_def paused_stage_reports network_report_for_def
      fetch_report_def split: outcome.split)

lemma finally_block_reports:
  "\<not> list_ex (network_report_for k) (finally_block session args env d)"
  by (simp add: finally_block_def network_report_for_def split: option.split)

lemma on_requestPaused_effects:
  "fst (snd (on_requestPaused cfg session l args env st)) =
     fst (try_block cfg session l args env) @
     (case snd (try_block cfg session l args env) of
        Completed doNotContinue \<Rightarrow> finally_block session args env doNotContinue
      | Suspended \<Rightarrow> [])"
  by (cases "try_block cfg session l args env")
    (simp add: on_requestPaused_def Let_def split: try_result.split)

lemma on_requestPaused_reports:
  "\<not> list_ex (network_report_for k) (fst (snd (on_requestPaused cfg session l args env st)))"
  by (simp add: on_requestPaused_effects try_block_reports finally_block_reports
      split: try_result.split)

lemma on_requestPaused_queue:
  "networkResponseCatchQueue (snd (snd (on_requestPaused cfg session l args env st))) =
     (if listener_shouldInspect l AND shouldInspectBy_responseCatcher \<noteq> 0
      then (case paused_networkId args of
              None \<Rightarrow> networkResponseCatchQueue st
            | Some k \<Rightarrow> (networkResponseCatchQueue st)(k := None))
      else networkResponseCatchQueue st)"
  by (simp add: on_requestPaused_def Let_def queue_delete_def
      split: prod.split try_result.split option.split)

lemma on_requestWillBeSent_queue:
  "networkResponseCatchQueue (snd (on_requestWillBeSent session l req rid st)) k =
     (if k = rid \<and> fst (testMultiple (regExpCache st) (request_url req) (listener_patterns l)) = Inr True
      then Some \<lparr>initiator = listener_url l, asFetch = False, requestId = rid,
                 networkId = None, sessionId = session, report_request = req,
                 report_response = None\<rparr>
      else networkResponseCatchQueue st k)"
  by (simp add: on_requestWillBeSent_def split: prod.split sum.split)

lemma on_requestWillBeSent_reports:
  "\<not> list_ex (network_report_for k) (fst (on_requestWillBeSent session l req rid st))"
  by (simp add: on_requestWillBeSent_def network_report_for_def split: prod.split sum.split)

text \<open>Every step keeps the entries of the queue under their own ids.\<close>

lemma step_queue_keyed:
  assumes "queue_keyed st"
  shows "queue_keyed (snd (step cfg ev st))"
proof (cases ev)
  case (TargetEvent ti env)
  then show ?thesis
    using assms inspect_queue [of cfg env ti st]
    by (auto simp: queue_keyed_def split: prod.split sum.split)
next
  case (SessionDetached tid)
  then show ?thesis using assms by (simp add: queue_keyed_def)
next
  case (RequestWillBeSent session req rid)
  then show ?thesis
    using assms
    by (auto simp: queue_keyed_def on_requestWillBeSent_queue split: option.split if_splits)
next
  case (ResponseReceived session resp rid)
  then show ?thesis
    using assms
    by (auto simp: queue_keyed_def on_responseReceived_def split: option.split if_splits)
next
  case (LoadingFinished session rid)
  then show ?thesis
    using assms
    by (auto simp: queue_keyed_def on_loadingFinished_def split: option.split if_splits)
next
  case (RequestPaused session args env)
  then show ?thesis
    using assms
    by (auto simp: queue_keyed_def on_requestPaused_queue split: option.split if_splits)
qed

lemma run_queue_keyed: "queue_keyed st \<Longrightarrow> queue_keyed (snd (run cfg evs st))"
  by (induction evs arbitrary: st) (simp_all add: step_queue_keyed)

lemma reachable_queue_keyed: "queue_keyed (snd (run cfg evs initial_state))"
  by (rule run_queue_keyed) (simp add: queue_keyed_def initial_state_def)

text \<open>An entry is only emitted by a loading-finished event for its id.\<close>

lemma step_reports:
  assumes "queue_keyed st" "\<not> loading_finished_for k ev \<or> networkResponseCatchQueue st k = None"
  shows "\<not> list_ex (network_report_for k) (fst (step cfg ev st))"
proof (cases ev)
  case (TargetEvent ti env)
  then show ?thesis
    using inspect_reports [of k cfg env ti st]
    by (auto simp: network_report_for_def split: prod.split sum.split)
next
  case (SessionDetached tid)
  then show ?thesis by simp
next
  case (RequestWillBeSent session req rid)
  then show ?thesis
    by (simp add: on_requestWillBeSent_reports split: option.split)
next
  case (ResponseReceived session resp rid)
  then show ?thesis
    by (simp add: on_responseReceived_def split: option.split)
next
  case (LoadingFinished session rid)
  then show ?thesis
    using assms
    by (auto simp: on_loadingFinished_def network_report_for_def queue_keyed_def
        loading_finished_for_def split: option.split)
next
  case (RequestPaused session args env)
  then show ?thesis
    by (simp add: on_requestPaused_reports split: option.split)
qed

text \<open>An entry is only created by a request-will-be-sent event for its id.\<close>

lemma step_no_entry:
  assumes "networkResponseCatchQueue st k = None" "\<not> request_sent_for k ev"
  shows "networkResponseCatchQueue (snd (step cfg ev st)) k = None"
proof (cases ev)
  case (TargetEvent ti env)
  then show ?thesis
    using assms inspect_queue [of cfg env ti st]
    by (auto split: prod.split sum.split)
next
  case (SessionDetached tid)
  then show ?thesis using assms by simp
next
  case (RequestWillBeSent session req rid)
  then show ?thesis
    using assms
    by (simp add: on_requestWillBeSent_queue request_sent_for_def split: option.split)
next
  case (ResponseReceived session resp rid)
  then show ?thesis
    using assms by (auto simp: on_responseReceived_def split: option.split)
next
  case (LoadingFinished session rid)
  then show ?thesis
    using assms by (auto simp: on_loadingFinished_def split: option.split)
next
  case (RequestPaused session args env)
  then show ?thesis
    using assms by (auto simp: on_requestPaused_queue split: option.split)
qed

lemma run_no_entry_no_report:
  "queue_keyed st \<Longrightarrow> networkResponseCatchQueue st k = None \<Longrightarrow>
   \<not> list_ex (request_sent_for k) evs \<Longrightarrow>
   \<not> list_ex (network_report_for k) (fst (run cfg evs st))"
proof (induction evs arbitrary: st)
  case Nil
  then show ?case by simp
next
  case (Cons ev evs)
  have "\<not> list_ex (network_report_for k) (fst (step cfg ev st))"
    using Cons.prems by (simp add: step_reports)
  moreover have "\<not> list_ex (network_report_for k) (fst (run cfg evs (snd (step cfg ev st))))"
    using Cons.prems by (intro Cons.IH) (simp_all add: step_queue_keyed step_no_entry)
  ultimately show ?case by simp
qed

lemma run_no_finish_no_report:
  "queue_keyed st \<Longrightarrow> \<not> list_ex (loading_finished_for k) evs \<Longrightarrow>
   \<not> list_ex (network_report_for k) (fst (run cfg evs st))"
proof (induction evs arbitrary: st)
  case Nil
  then show ?case by simp
next
  case (Cons ev evs)
  have "\<not> list_ex (network_report_for k) (fst (step cfg ev st))"
    using Cons.prems by (simp add: step_reports)
  moreover have "\<not> list_ex (network_report_for k) (fst (run cfg evs (snd (step cfg ev st))))"
    using Cons.prems by (intro Cons.IH) (simp_all add: step_queue_keyed)
  ultimately show ?case by simp
qed

text \<open>
  C1: in every state the program can reach, a paused request of a session with response
  capture first deletes the entry of the queue under the network request id and then
  calls the response-received handler; after the step the queue has no entry under that
  id, and whatever events follow, as long as none of them is a request-will-be-sent
  event that creates a new entry under the id, the observation channel emits no report
  for it.
\<close>

theorem paused_evicts_pending:
  assumes "st = snd (run cfg pre initial_state)"
    and "listeners st session = Some l"
    and "listener_shouldInspect l AND shouldInspectBy_responseCatcher \<noteq> 0"
    and "responseReceivedHandler cfg"
    and "paused_networkId args = Some nid"
  shows
    "(\<exists>rest. fst (step cfg (RequestPaused session args env) st) =
        AbortNetworkCatch (Some nid) # ResponseReceivedCall (fetch_report session l args) # rest) \<and>
     networkResponseCatchQueue (snd (step cfg (RequestPaused session args env) st)) nid = None \<and>
     (\<not> list_ex (request_sent_for nid) evs \<longrightarrow>
        \<not> list_ex (network_report_for nid)
             (fst (run cfg evs (snd (step cfg (RequestPaused session args env) st)))))"
proof -
  let ?st' = "snd (step cfg (RequestPaused session args env) st)"
  have keyed: "queue_keyed st"
    using assms(1) reachable_queue_keyed by simp
  have first: "\<exists>rest. fst (try_block cfg session l args env) =
      AbortNetworkCatch (Some nid) # ResponseReceivedCall (fetch_report session l args) # rest"
    using assms(3,4,5) by (auto simp: try_block_def Let_def split: outcome.split)
  then have effects: "\<exists>rest. fst (step cfg (RequestPaused session args env) st) =
      AbortNetworkCatch (Some nid) # ResponseReceivedCall (fetch_report session l args) # rest"
    using assms(2) by (auto simp: on_requestPaused_effects)
  have gone: "networkResponseCatchQueue ?st' nid = None"
    using assms(2,3,5) by (simp add: on_requestPaused_queue)
  have keyed': "queue_keyed ?st'"
    using keyed by (rule step_queue_keyed)
  have "\<not> list_ex (request_sent_for nid) evs \<longrightarrow>
        \<not> list_ex (network_report_for nid) (fst (run cfg evs ?st'))"
    using run_no_entry_no_report [OF keyed' gone] by blast
  with effects gone show ?thesis by blast
qed

lemma observed_state:
  "listeners (snd (run example_config observed_run initial_state)) 1 = Some example_listener \<and>
   networkResponseCatchQueue (snd (run example_config observed_run initial_state)) (str ''r'') =
     Some example_entry"
  by code_simp

theorem paused_evicts_pending_witness:
  "listeners (snd (run example_config observed_run initial_state)) 1 = Some example_listener \<and>
   networkResponseCatchQueue (snd (run example_config observed_run initial_state)) (str ''r'') =
     Some example_entry \<and>
   networkResponseCatchQueue
     (snd (step example_config (RequestPaused 1 example_paused handlers_return)
        (snd (run example_config observed_run initial_state)))) (str ''r'') = None \<and>
   \<not> list_ex (network_report_for (str ''r''))
       (fst (run example_config [LoadingFinished 1 (str ''r'')]
          (snd (step example_config (RequestPaused 1 example_paused handlers_return)
             (snd (run example_config observed_run initial_state))))))"
proof -
  have l: "listeners (snd (run example_config observed_run initial_state)) 1 = Some example_listener"
    using observed_state by simp
  have c: "listener_shouldInspect example_listener AND shouldInspectBy_responseCatcher \<noteq> 0"
    by (simp add: example_listener_def shouldInspectBy_responseCatcher_def)
  have h: "responseReceivedHandler example_config"
    by (simp add: example_config_def)
  have n: "paused_networkId example_paused = Some (str ''r'')"
    by (simp add: example_paused_def)
  have e: "\<not> list_ex (request_sent_for (str ''r'')) [LoadingFinished 1 (str ''r'')]"
    by (simp add: request_sent_for_def)
  show ?thesis
    using paused_evicts_pending [OF refl l c h n, of handlers_return "[LoadingFinished 1 (str ''r'')]"]
      observed_state e
    by blast
qed

text \<open>
  C2, as the code has it: detaching a bound session, on a target notification that leaves
  no interest or on the \<open>detached\<close> event of the session, takes the target out of
  \<open>sessions\<close> and leaves the queue and the registered handlers as they are. No entry is
  emitted as long as no loading-finished event for its id is delivered; when one is
  delivered to a session with the observation handlers, the entry is emitted to the
  response-received handler.
\<close>

theorem detach_keeps_pending:
  "(sessions st (targetId ti) = Some session \<and>
    fst (evaluate_interest cfg ti (regExpCache st)) = Inr i \<and> shouldInspect i = 0 \<longrightarrow>
      fst (inspectTargetOrNot cfg env ti st) = Inr () \<and>
      Detach session \<in> set (fst (snd (inspectTargetOrNot cfg env ti st))) \<and>
      sessions (snd (snd (inspectTargetOrNot cfg env ti st))) (targetId ti) = None \<and>
      networkResponseCatchQueue (snd (snd (inspectTargetOrNot cfg env ti st))) =
        networkResponseCatchQueue st \<and>
      listeners (snd (snd (inspectTargetOrNot cfg env ti st))) = listeners st) \<and>
   (sessions (snd (step cfg (SessionDetached tid) st)) tid = None \<and>
    networkResponseCatchQueue (snd (step cfg (SessionDetached tid) st)) =
      networkResponseCatchQueue st \<and>
    listeners (snd (step cfg (SessionDetached tid) st)) = listeners st) \<and>
   (\<not> list_ex (loading_finished_for k) evs \<longrightarrow>
      \<not> list_ex (network_report_for k)
           (fst (run cfg evs (snd (run cfg pre initial_state))))) \<and>
   (networkResponseCatchQueue st k = Some r \<and> listeners st s = Some l \<and> listener_network l \<and>
    responseReceivedHandler cfg \<longrightarrow>
      fst (step cfg (LoadingFinished s k) st) = [ResponseReceivedCall r])"
proof -
  have a: "sessions st (targetId ti) = Some session \<and>
    fst (evaluate_interest cfg ti (regExpCache st)) = Inr i \<and> shouldInspect i = 0 \<longrightarrow>
      fst (inspectTargetOrNot cfg env ti st) = Inr () \<and>
      Detach session \<in> set (fst (snd (inspectTargetOrNot cfg env ti st))) \<and>
      sessions (snd (snd (inspectTargetOrNot cfg env ti st))) (targetId ti) = None \<and>
      networkResponseCatchQueue (snd (snd (inspectTargetOrNot cfg env ti st))) =
        networkResponseCatchQueue st \<and>
      listeners (snd (snd (inspectTargetOrNot cfg env ti st))) = listeners st"
    by (cases "evaluate_interest cfg ti (regExpCache st)")
      (auto simp: inspectTargetOrNot_def Let_def split: option.split)
  have c: "\<not> list_ex (loading_finished_for k) evs \<longrightarrow>
      \<not> list_ex (network_report_for k) (fst (run cfg evs (snd (run cfg pre initial_state))))"
    using run_no_finish_no_report [OF reachable_queue_keyed] by blast
  have d: "networkResponseCatchQueue st k = Some r \<and> listeners st s = Some l \<and>
      listener_network l \<and> responseReceivedHandler cfg \<longrightarrow>
      fst (step cfg (LoadingFinished s k) st) = [ResponseReceivedCall r]"
    by (simp add: on_loadingFinished_def)
  show ?thesis using a c d by simp
qed

theorem detach_keeps_pending_witness:
  "sessions (snd (run example_config observed_run initial_state)) (str ''t'') = Some 1 \<and>
   fst (evaluate_interest example_config (page ''t'' ''b'')
          (regExpCache (snd (run example_config observed_run initial_state)))) = Inr no_interest \<and>
   sessions (snd (snd (inspectTargetOrNot example_config (binds_as 2) (page ''t'' ''b'')
      (snd (run example_config observed_run initial_state))))) (str ''t'') = None \<and>
   networkResponseCatchQueue (snd (snd (inspectTargetOrNot example_config (binds_as 2)
      (page ''t'' ''b'') (snd (run example_config observed_run initial_state))))) =
     networkResponseCatchQueue (snd (run example_config observed_run initial_state)) \<and>
   \<not> list_ex (network_report_for (str ''r''))
       (fst (run example_config [SessionDetached (str ''t'')]
          (snd (run example_config observed_run initial_state)))) \<and>
   fst (step example_config (LoadingFinished 1 (str ''r''))
          (snd (run example_config observed_run initial_state))) =
     [ResponseReceivedCall example_entry]"
proof -
  let ?st = "snd (run example_config observed_run initial_state)"
  have s: "sessions ?st (targetId (page ''t'' ''b'')) = Some 1"
    by code_simp
  have s': "sessions ?st (str ''t'') = Some 1"
    by code_simp
  have i: "fst (evaluate_interest example_config (page ''t'' ''b'') (regExpCache ?st)) =
      Inr no_interest"
    by code_simp
  have z: "shouldInspect no_interest = 0"
    by (simp add: no_interest_def)
  have t: "targetId (page ''t'' ''b'') = str ''t''"
    by (simp add: page_def)
  have f: "\<not> list_ex (loading_finished_for (str ''r'')) [SessionDetached (str ''t'')]"
    by (simp add: loading_finished_for_def)
  have n: "listener_network example_listener" "responseReceivedHandler example_config"
    by (simp_all add: example_listener_def example_config_def)
  note inst = detach_keeps_pending [of ?st "page ''t'' ''b''" 1 example_config no_interest
      "binds_as 2" "str ''t''" "str ''r''" "[SessionDetached (str ''t'')]" observed_run
      example_entry 1 example_listener]
  show ?thesis
    using inst s s' i z f n observed_state unfolding t by blast
qed

text \<open>
  C2 as stated fails: after the session of a target has been detached, on a changed url
  as well as on the \<open>detached\<close> event, the observation created by that session is still
  in the queue, and a loading-finished event for the request then emits it.
\<close>

theorem detach_keeps_pending_counterexample:
  "sessions (snd (run example_config changed_run initial_state)) (str ''t'') = None \<and>
   Detach 1 \<in> set (fst (run example_config changed_run initial_state)) \<and>
   networkResponseCatchQueue (snd (run example_config changed_run initial_state)) (str ''r'') =
     Some example_entry \<and>
   sessionId example_entry = 1 \<and>
   fst (step example_config (LoadingFinished 1 (str ''r''))
          (snd (run example_config changed_run initial_state))) =
     [ResponseReceivedCall example_entry] \<and>
   sessions (snd (run example_config destroyed_run initial_state)) (str ''t'') = None \<and>
   networkResponseCatchQueue (snd (run example_config destroyed_run initial_state)) (str ''r'') =
     Some example_entry"
  by code_simp

end
